theory Spec2Isabelle
  imports Main
begin

section \<open>Python values: dictionaries, exceptions, object references\<close>

text \<open>
  The registration payloads and the search queries arrive as parsed JSON, and the documents
  of the descriptive store are what was registered. A value is a string, a number, a boolean,
  \<open>None\<close>, a list or a dictionary; \<open>ObjectId\<close> is the identifier that the descriptive
  store generates, which no JSON text yields. Numbers are integers here.
\<close>

datatype jvalue =
    Str string
  | Num int
  | Boolean bool
  | Null
  | Arr "jvalue list"
  | Obj "(string \<times> jvalue) list"
  | ObjectId nat

text \<open>
  A dictionary is an association list in insertion order; a lookup reads the first entry of
  a key, an assignment overwrites the entry of the key or appends a new one.
\<close>

type_synonym dict = "(string \<times> jvalue) list"

datatype error =
    AuthenticationError | ValidationError
  | IntegrityError | StatementError
  | DuplicateKeyError | OperationFailure
  | KeyError | TypeError | AttributeError

text \<open>\<open>k in d\<close>\<close>

definition contains :: "dict \<Rightarrow> string \<Rightarrow> bool" where
  "contains d k = (case map_of d k of None \<Rightarrow> False | Some v \<Rightarrow> True)"

text \<open>\<open>d[k]\<close> raises KeyError on a missing key.\<close>

definition getitem :: "dict \<Rightarrow> string \<Rightarrow> error + jvalue" where
  "getitem d k = (case map_of d k of None \<Rightarrow> Inl KeyError | Some v \<Rightarrow> Inr v)"

text \<open>\<open>d[k] = v\<close>\<close>

fun setitem :: "dict \<Rightarrow> string \<Rightarrow> jvalue \<Rightarrow> dict" where
  "setitem [] k v = [(k, v)]"
| "setitem ((k', v') # d) k v = (if k' = k then (k, v) # d else (k', v') # setitem d k v)"

text \<open>\<open>del d[k]\<close>, guarded by \<open>k in d\<close> at its only use.\<close>

definition delitem :: "dict \<Rightarrow> string \<Rightarrow> dict" where
  "delitem d k = filter (\<lambda>kv. fst kv \<noteq> k) d"

text \<open>
  \<open>len(v)\<close>: strings, lists and dictionaries have a length; for a number, a boolean or
  \<open>None\<close> the call raises TypeError.
\<close>

fun py_len :: "jvalue \<Rightarrow> error + nat" where
  "py_len (Str s) = Inr (length s)"
| "py_len (Arr xs) = Inr (length xs)"
| "py_len (Obj kvs) = Inr (length kvs)"
| "py_len v = Inl TypeError"

text \<open>\<open>s.endswith("/")\<close> on a string.\<close>

definition endswith_slash :: "string \<Rightarrow> bool" where
  "endswith_slash s = (case rev s of [] \<Rightarrow> False | c # cs \<Rightarrow> c = CHR ''/'')"

text \<open>
  \<open>v.endswith("/")\<close>: only a string has the method; on any other value the attribute
  lookup raises AttributeError.
\<close>

fun py_endswith_slash :: "jvalue \<Rightarrow> error + bool" where
  "py_endswith_slash (Str s) = Inr (endswith_slash s)"
| "py_endswith_slash v = Inl AttributeError"

text \<open>Sequencing of computations that may raise.\<close>

definition ebind :: "error + 'a \<Rightarrow> ('a \<Rightarrow> error + 'b) \<Rightarrow> error + 'b" where
  "ebind m f = (case m of Inl e \<Rightarrow> Inl e | Inr x \<Rightarrow> f x)"

text \<open>
  Dictionary objects live in a heap, so that a function which receives a reference to the
  caller's dictionary can be seen to mutate it or to leave it alone. \<open>heap_top\<close> is the next free
  address; a reference is allocated when it is below \<open>heap_top\<close>.
\<close>

record heap =
  cells :: "nat \<Rightarrow> dict"
  heap_top :: nat

text \<open>\<open>d.copy()\<close> allocates a new dictionary with the entries of \<open>d\<close>.\<close>

definition dict_copy :: "heap \<Rightarrow> nat \<Rightarrow> nat \<times> heap" where
  "dict_copy h a = (heap_top h, h\<lparr>cells := (cells h)(heap_top h := cells h a), heap_top := Suc (heap_top h)\<rparr>)"

definition heap_setitem :: "heap \<Rightarrow> nat \<Rightarrow> string \<Rightarrow> jvalue \<Rightarrow> heap" where
  "heap_setitem h a k v = h\<lparr>cells := (cells h)(a := setitem (cells h a) k v)\<rparr>"

text \<open>\<open>str(n)\<close> for a count.\<close>

definition digit_char :: "nat \<Rightarrow> char" where
  "digit_char n = ''0123456789'' ! (n mod 10)"

fun str_nat :: "nat \<Rightarrow> string" where
  "str_nat n = (if n < 10 then [digit_char n] else str_nat (n div 10) @ [digit_char (n mod 10)])"

declare str_nat.simps [simp del]

text \<open>Reading a decimal numeral back, to say which number a text shows.\<close>

definition digit_val :: "char \<Rightarrow> nat" where
  "digit_val c = (of_char c) - 48"

definition nat_of_str :: "string \<Rightarrow> nat" where
  "nat_of_str s = foldl (\<lambda>acc c. 10 * acc + digit_val c) 0 s"


section \<open>The two stores\<close>

text \<open>
  The admin store is the SQL database behind \<open>sql_db\<close>: the tables of the models
  \<open>User\<close>, \<open>BaseURI\<close> and \<open>Dataset\<close>. The module \<open>sql_models\<close> that declares them is not
  among the sources.

  Modelled from the spec: the columns of the three models of \<open>sql_models\<close> (spec section 3):
  a user has a username, an admin flag and the two relations \<open>search_base_uris\<close> and
  \<open>register_base_uris\<close>; a base URI has its primary key \<open>id\<close> and its string; a dataset has
  \<open>uuid\<close>, \<open>uri\<close>, \<open>base_uri_id\<close> and \<open>name\<close>. A relation holds each related \<open>BaseURI\<close> row
  once, in the order in which the rows were first appended; base URI rows are never
  changed after their creation, so the rows are held by value.
\<close>

record BaseURI =
  base_uri_pk :: nat
  base_uri :: string

record User =
  username :: string
  is_admin :: bool
  search_base_uris :: "BaseURI list"
  register_base_uris :: "BaseURI list"

record Dataset =
  uri :: string
  base_uri_id :: nat
  uuid :: string
  name :: string

text \<open>
  The descriptive store is the MongoDB collection \<open>mongo.db[MONGO_COLLECTION]\<close>: a list of
  documents in insertion order. Every stored document carries an \<open>_id\<close> entry, its own or
  one that the store generated, and no two stored documents may carry the same.
\<close>

record state =
  users :: "User list"
  base_uris :: "BaseURI list"
  datasets :: "Dataset list"
  collection :: "dict list"

text \<open>
  A query document matches a stored document when every field of the query is present in
  the document with the same value.
\<close>

definition matches :: "dict \<Rightarrow> dict \<Rightarrow> bool" where
  "matches q d = list_all (\<lambda>kv. map_of d (fst kv) = Some (snd kv)) q"

text \<open>\<open>collection.find(q, {"_id": False})\<close>\<close>

definition mongo_find :: "dict list \<Rightarrow> dict \<Rightarrow> dict list" where
  "mongo_find coll q = map (\<lambda>d. delitem d ''_id'') (filter (matches q) coll)"

text \<open>\<open>collection.find_one(q)\<close>\<close>

definition find_one :: "dict list \<Rightarrow> dict \<Rightarrow> dict option" where
  "find_one coll q = List.find (matches q) coll"

text \<open>An identifier above every generated identifier that the collection holds.\<close>

fun oid_number :: "dict \<Rightarrow> nat" where
  "oid_number d = (case map_of d ''_id'' of Some (ObjectId n) \<Rightarrow> n | _ \<Rightarrow> 0)"

definition fresh_oid :: "dict list \<Rightarrow> nat" where
  "fresh_oid coll = Suc (fold max (map oid_number coll) 0)"

text \<open>
  \<open>collection.insert_one(d)\<close>. A dictionary without an \<open>_id\<close> receives a fresh one, which
  the client also writes into the caller's dictionary; an \<open>_id\<close> that a stored document
  carries already is refused with DuplicateKeyError. The result is the collection and the
  caller's dictionary after the call.
\<close>

definition insert_one :: "dict list \<Rightarrow> dict \<Rightarrow> error + dict list \<times> dict" where
  "insert_one coll d =
     (case map_of d ''_id'' of
        None \<Rightarrow>
          (let d' = setitem d ''_id'' (ObjectId (fresh_oid coll)) in Inr (coll @ [d'], d'))
      | Some i \<Rightarrow>
          if list_ex (\<lambda>doc. map_of doc ''_id'' = Some i) coll then Inl DuplicateKeyError
          else Inr (coll @ [d], d))"

text \<open>The first element that satisfies \<open>P\<close> is rewritten by \<open>f\<close>, the others stay.\<close>

fun update_first :: "('a \<Rightarrow> bool) \<Rightarrow> ('a \<Rightarrow> 'a) \<Rightarrow> 'a list \<Rightarrow> 'a list" where
  "update_first P f [] = []"
| "update_first P f (x # xs) = (if P x then f x # xs else x # update_first P f xs)"

text \<open>
  The document that takes the place of \<open>old\<close> when it is replaced by \<open>d\<close>: the \<open>_id\<close> of
  a stored document cannot change, so a replacement without an \<open>_id\<close> inherits it and a
  replacement with another \<open>_id\<close> is refused.
\<close>

definition replacement :: "dict \<Rightarrow> dict \<Rightarrow> error + dict" where
  "replacement old d =
     (case map_of d ''_id'' of
        None \<Rightarrow> (case map_of old ''_id'' of None \<Rightarrow> Inr d | Some i \<Rightarrow> Inr (setitem d ''_id'' i))
      | Some j \<Rightarrow> if map_of old ''_id'' = Some j then Inr d else Inl OperationFailure)"

text \<open>
  \<open>collection.find_one_and_replace(q, d)\<close> replaces the first document that matches; the
  caller's dictionary is not written.
\<close>

definition find_one_and_replace :: "dict list \<Rightarrow> dict \<Rightarrow> dict \<Rightarrow> error + dict list" where
  "find_one_and_replace coll q d =
     (case List.find (matches q) coll of
        None \<Rightarrow> Inr coll
      | Some old \<Rightarrow>
          (case replacement old d of
             Inl e \<Rightarrow> Inl e
           | Inr new \<Rightarrow> Inr (update_first (matches q) (\<lambda>x. new) coll)))"

text \<open>\<open>collection.count()\<close>\<close>

definition mongo_count :: "dict list \<Rightarrow> nat" where
  "mongo_count coll = length coll"

text \<open>
  Modelled from the spec: \<open>Dataset.as_dict\<close> of the absent module \<open>sql_models\<close>. The admin
  record of the spec is the tuple of \<open>uuid\<close>, \<open>uri\<close>, \<open>base_uri_id\<close> and \<open>name\<close>, so the row
  stands for its dictionary.
\<close>

definition as_dict :: "Dataset \<Rightarrow> Dataset" where
  "as_dict ds = ds"

text \<open>
  Modelled from the spec: the key constraints of the absent module \<open>sql_models\<close>. The
  \<open>uri\<close> of a dataset and the string of a base URI are unique keys (spec section 3), and
  \<open>insertAdminRecord\<close> fails if the \<open>uri\<close> is already present (spec section 4.1); a new
  base URI row receives a primary key above all those in the table.
\<close>

text \<open>
  Modelled from the spec: the column types of the absent module \<open>sql_models\<close>. The
  \<open>uuid\<close>, \<open>uri\<close> and \<open>name\<close> of a dataset and the \<open>base_uri\<close> of a base URI are character
  strings (spec section 3); a value of another type that is bound to such a column is
  refused by the store.
\<close>

fun sql_bind :: "jvalue \<Rightarrow> error + string" where
  "sql_bind (Str s) = Inr s"
| "sql_bind v = Inl StatementError"

definition sql_add_dataset :: "state \<Rightarrow> Dataset \<Rightarrow> (error + unit) \<times> state" where
  "sql_add_dataset st ds =
     (if list_ex (\<lambda>x. uri x = uri ds) (datasets st) then (Inl IntegrityError, st)
      else (Inr (), st\<lparr>datasets := datasets st @ [ds]\<rparr>))"

definition next_pk :: "BaseURI list \<Rightarrow> nat" where
  "next_pk bs = Suc (fold max (map base_uri_pk bs) 0)"

definition sql_add_base_uri :: "state \<Rightarrow> string \<Rightarrow> (error + unit) \<times> state" where
  "sql_add_base_uri st b =
     (if list_ex (\<lambda>x. base_uri x = b) (base_uris st) then (Inl IntegrityError, st)
      else (Inr (),
            st\<lparr>base_uris := base_uris st @ [\<lparr>base_uri_pk = next_pk (base_uris st), base_uri = b\<rparr>]\<rparr>))"


section \<open>utils.py\<close>

definition DATASET_INFO_REQUIRED_KEYS :: "string list" where
  "DATASET_INFO_REQUIRED_KEYS = [''uuid'', ''base_uri'', ''uri'', ''name'', ''type'', ''readme'']"

subsection \<open>Private helper functions\<close>

definition private_get_user_obj :: "state \<Rightarrow> string \<Rightarrow> User option" where
  "private_get_user_obj st n = List.find (\<lambda>u. username u = n) (users st)"

definition private_get_base_uri_obj :: "state \<Rightarrow> string \<Rightarrow> BaseURI option" where
  "private_get_base_uri_obj st b = List.find (\<lambda>x. base_uri x = b) (base_uris st)"

subsection \<open>User helper functions\<close>

definition user_exists :: "state \<Rightarrow> string \<Rightarrow> bool" where
  "user_exists st n = (if private_get_user_obj st n = None then False else True)"

definition get_user_obj :: "state \<Rightarrow> string \<Rightarrow> error + User" where
  "get_user_obj st n =
     (case private_get_user_obj st n of None \<Rightarrow> Inl AuthenticationError | Some user \<Rightarrow> Inr user)"

text \<open>
  \<open>register_users\<close>: an entry is a username and the optional \<open>is_admin\<close> field; an existing
  user is skipped.
\<close>

fun register_users :: "state \<Rightarrow> (string \<times> bool option) list \<Rightarrow> state" where
  "register_users st [] = st"
| "register_users st ((n, adm) # rest) =
     (let is_adm = (case adm of None \<Rightarrow> False | Some b \<Rightarrow> b)
      in if list_ex (\<lambda>u. username u = n) (users st) then register_users st rest
         else register_users
                (st\<lparr>users := users st @
                     [\<lparr>username = n, is_admin = is_adm,
                       search_base_uris = [], register_base_uris = []\<rparr>]\<rparr>) rest)"

subsection \<open>Dataset list, search and lookup helper functions\<close>

text \<open>\<open>base_uri.datasets\<close>: the datasets that refer to the base URI.\<close>

definition datasets_of :: "state \<Rightarrow> BaseURI \<Rightarrow> Dataset list" where
  "datasets_of st b = filter (\<lambda>ds. base_uri_id ds = base_uri_pk b) (datasets st)"

definition list_datasets_by_user :: "state \<Rightarrow> string \<Rightarrow> error + Dataset list" where
  "list_datasets_by_user st n =
     ebind (get_user_obj st n) (\<lambda>user.
       Inr (concat (map (\<lambda>b. map as_dict (datasets_of st b)) (search_base_uris user))))"

text \<open>
  The loop of \<open>search_datasets_by_user\<close>. \<open>query\<close> is the reference to the caller's
  dictionary; each round copies it, pins \<open>base_uri\<close> in the copy and appends what the
  store finds to \<open>datasets\<close>.
\<close>

fun search_loop ::
  "dict list \<Rightarrow> heap \<Rightarrow> nat \<Rightarrow> BaseURI list \<Rightarrow> dict list \<Rightarrow> dict list \<times> heap" where
  "search_loop coll h query [] acc = (acc, h)"
| "search_loop coll h query (b # bs) acc =
     (let (base_uri_query, h1) = dict_copy h query;
          h2 = heap_setitem h1 base_uri_query ''base_uri'' (Str (base_uri b));
          cx = mongo_find coll (cells h2 base_uri_query)
      in search_loop coll h2 query bs (acc @ cx))"

definition search_datasets_by_user ::
  "state \<Rightarrow> heap \<Rightarrow> string \<Rightarrow> nat \<Rightarrow> (error + dict list) \<times> heap" where
  "search_datasets_by_user st h n query =
     (case get_user_obj st n of
        Inl e \<Rightarrow> (Inl e, h)
      | Inr user \<Rightarrow>
          (let (ds, h') = search_loop (collection st) h query (search_base_uris user) []
           in (Inr ds, h')))"

text \<open>
  The query of \<open>lookup_datasets_by_user_and_uuid\<close> joins the three tables and keeps the
  triples that pass the four filters; the dataset of each triple is returned.
\<close>

definition lookup_datasets_by_user_and_uuid :: "state \<Rightarrow> string \<Rightarrow> string \<Rightarrow> error + Dataset list" where
  "lookup_datasets_by_user_and_uuid st n x =
     ebind (get_user_obj st n) (\<lambda>user.
       Inr (map (\<lambda>(ds, b, u). as_dict ds)
             (filter (\<lambda>(ds, b, u).
                        uuid ds = x \<and> username u = n \<and> base_uri_pk b = base_uri_id ds \<and>
                        list_ex (\<lambda>g. base_uri_pk g = base_uri_id ds) (search_base_uris u))
                (List.product (datasets st) (List.product (base_uris st) (users st))))))"

subsection \<open>Base URI helper functions\<close>

definition base_uri_exists :: "state \<Rightarrow> string \<Rightarrow> bool" where
  "base_uri_exists st b = (if private_get_base_uri_obj st b = None then False else True)"

definition get_base_uri_obj :: "state \<Rightarrow> string \<Rightarrow> error + BaseURI" where
  "get_base_uri_obj st b =
     (case private_get_base_uri_obj st b of None \<Rightarrow> Inl ValidationError | Some obj \<Rightarrow> Inr obj)"

definition register_base_uri :: "state \<Rightarrow> string \<Rightarrow> (error + unit) \<times> state" where
  "register_base_uri st b = sql_add_base_uri st b"

subsection \<open>Permission helper functions\<close>

text \<open>
  The argument of \<open>update_permissions\<close>, with the three fields that the function reads.
\<close>

record permissions =
  perm_base_uri :: string
  users_with_search_permissions :: "string list"
  users_with_register_permissions :: "string list"

text \<open>
  Appending to a relation and committing: the stored relation holds a base URI once, so
  appending one that is there already leaves the relation as it is.
\<close>

definition relate :: "BaseURI list \<Rightarrow> BaseURI \<Rightarrow> BaseURI list" where
  "relate bs b = (if b \<in> set bs then bs else bs @ [b])"

text \<open>\<open>user.search_base_uris.append(b)\<close> on the user that \<open>get_user_obj\<close> returns.\<close>

definition append_search :: "state \<Rightarrow> string \<Rightarrow> BaseURI \<Rightarrow> state" where
  "append_search st n b =
     st\<lparr>users := update_first (\<lambda>u. username u = n)
                    (\<lambda>u. u\<lparr>search_base_uris := relate (search_base_uris u) b\<rparr>) (users st)\<rparr>"

definition append_register :: "state \<Rightarrow> string \<Rightarrow> BaseURI \<Rightarrow> state" where
  "append_register st n b =
     st\<lparr>users := update_first (\<lambda>u. username u = n)
                    (\<lambda>u. u\<lparr>register_base_uris := relate (register_base_uris u) b\<rparr>) (users st)\<rparr>"

fun grant_search_loop :: "state \<Rightarrow> BaseURI \<Rightarrow> string list \<Rightarrow> state" where
  "grant_search_loop st b [] = st"
| "grant_search_loop st b (n # ns) =
     (if user_exists st n then grant_search_loop (append_search st n b) b ns
      else grant_search_loop st b ns)"

fun grant_register_loop :: "state \<Rightarrow> BaseURI \<Rightarrow> string list \<Rightarrow> state" where
  "grant_register_loop st b [] = st"
| "grant_register_loop st b (n # ns) =
     (if user_exists st n then grant_register_loop (append_register st n b) b ns
      else grant_register_loop st b ns)"

definition update_permissions :: "state \<Rightarrow> permissions \<Rightarrow> (error + unit) \<times> state" where
  "update_permissions st p =
     (case get_base_uri_obj st (perm_base_uri p) of
        Inl e \<Rightarrow> (Inl e, st)
      | Inr b \<Rightarrow>
          (let st1 = grant_search_loop st b (users_with_search_permissions p);
               st2 = grant_register_loop st1 b (users_with_register_permissions p)
           in (Inr (), st2)))"

subsection \<open>Register dataset helper functions\<close>

fun required_keys_loop :: "string list \<Rightarrow> dict \<Rightarrow> bool" where
  "required_keys_loop [] d = True"
| "required_keys_loop (k # ks) d = (if \<not> contains d k then False else required_keys_loop ks d)"

text \<open>
  \<open>dataset_info_is_valid\<close> returns a boolean, or raises where \<open>len\<close> or \<open>endswith\<close>
  meets a value that has none.
\<close>

definition dataset_info_is_valid :: "dict \<Rightarrow> error + bool" where
  "dataset_info_is_valid d =
     (if \<not> required_keys_loop DATASET_INFO_REQUIRED_KEYS d then Inr False
      else ebind (getitem d ''type'') (\<lambda>t.
        if t \<noteq> Str ''dataset'' then Inr False
        else ebind (getitem d ''uuid'') (\<lambda>u.
          ebind (py_len u) (\<lambda>n.
            if n \<noteq> 36 then Inr False
            else ebind (getitem d ''base_uri'') (\<lambda>b.
              ebind (py_endswith_slash b) (\<lambda>slash.
                if slash then Inr False
                else Inr True))))))"


subsection \<open>Dataset information retrieval helper functions\<close>

definition get_admin_metadata_from_uri :: "state \<Rightarrow> string \<Rightarrow> Dataset option" where
  "get_admin_metadata_from_uri st r =
     (case List.find (\<lambda>ds. uri ds = r) (datasets st) of
        None \<Rightarrow> None
      | Some dataset \<Rightarrow> Some (as_dict dataset))"

text \<open>
  \<open>get_readme_from_uri\<close>: \<open>item\<close> is \<open>None\<close> when no document has the uri, and subscripting
  \<open>None\<close> raises TypeError.
\<close>

definition get_readme_from_uri :: "state \<Rightarrow> string \<Rightarrow> error + jvalue" where
  "get_readme_from_uri st r =
     (case find_one (collection st) [(''uri'', Str r)] of
        None \<Rightarrow> Inl TypeError
      | Some item \<Rightarrow> getitem item ''readme'')"

subsection \<open>Registration\<close>

definition register_dataset_admin_metadata :: "state \<Rightarrow> dict \<Rightarrow> (error + unit) \<times> state" where
  "register_dataset_admin_metadata st admin_metadata =
     (case ebind (ebind (getitem admin_metadata ''base_uri'') sql_bind) (get_base_uri_obj st) of
        Inl e \<Rightarrow> (Inl e, st)
      | Inr b \<Rightarrow>
          (case ebind (ebind (getitem admin_metadata ''uri'') sql_bind) (\<lambda>r.
                ebind (ebind (getitem admin_metadata ''uuid'') sql_bind) (\<lambda>u.
                ebind (ebind (getitem admin_metadata ''name'') sql_bind) (\<lambda>n.
                  Inr \<lparr>uri = r, base_uri_id = base_uri_pk b, uuid = u, name = n\<rparr>))) of
             Inl e \<Rightarrow> (Inl e, st)
           | Inr dataset \<Rightarrow> sql_add_dataset st dataset))"

text \<open>
  The two branches on \<open>exists\<close> in \<open>_register_dataset_descriptive_metadata\<close>: insert when
  no document has the uuid and the uri, replace the one that has them otherwise. The result
  is the collection and the caller's dictionary after the call.
\<close>

definition upsert :: "dict list \<Rightarrow> dict \<Rightarrow> dict \<Rightarrow> error + dict list \<times> dict" where
  "upsert coll query dataset_info =
     (case find_one coll query of
        None \<Rightarrow> insert_one coll dataset_info
      | Some ex \<Rightarrow>
          (case find_one_and_replace coll query dataset_info of
             Inl e \<Rightarrow> Inl e
           | Inr coll' \<Rightarrow> Inr (coll', dataset_info)))"

text \<open>
  \<open>_register_dataset_descriptive_metadata\<close> returns \<open>None\<close> for an invalid dictionary and
  the uuid otherwise. The third component is the caller's dictionary after the call: the
  function deletes the \<open>_id\<close> entry that it finds there.
\<close>

definition private_register_dataset_descriptive_metadata ::
  "dict list \<Rightarrow> dict \<Rightarrow> (error + jvalue option) \<times> dict list \<times> dict" where
  "private_register_dataset_descriptive_metadata coll dataset_info =
     (case dataset_info_is_valid dataset_info of
        Inl e \<Rightarrow> (Inl e, coll, dataset_info)
      | Inr ok \<Rightarrow>
          if \<not> ok then (Inr None, coll, dataset_info)
          else
            (case ebind (getitem dataset_info ''uuid'') (\<lambda>u.
                  ebind (getitem dataset_info ''uri'') (\<lambda>r.
                    Inr [(''uuid'', u), (''uri'', r)])) of
               Inl e \<Rightarrow> (Inl e, coll, dataset_info)
             | Inr query \<Rightarrow>
                 (case upsert coll query dataset_info of
                    Inl e \<Rightarrow> (Inl e, coll, dataset_info)
                  | Inr (coll', info1) \<Rightarrow>
                      (let info2 = (if contains info1 ''_id''
                                    then delitem info1 ''_id'' else info1)
                       in (ebind (getitem info2 ''uuid'') (\<lambda>u. Inr (Some u)), coll', info2)))))"

definition register_dataset_descriptive_metadata ::
  "state \<Rightarrow> dict \<Rightarrow> (error + unit) \<times> state \<times> dict" where
  "register_dataset_descriptive_metadata st dataset_info =
     (case ebind (ebind (getitem dataset_info ''base_uri'') sql_bind) (get_base_uri_obj st) of
        Inl e \<Rightarrow> (Inl e, st, dataset_info)
      | Inr b \<Rightarrow>
          (case private_register_dataset_descriptive_metadata (collection st) dataset_info of
             (Inl e, coll', info') \<Rightarrow> (Inl e, st\<lparr>collection := coll'\<rparr>, info')
           | (Inr r, coll', info') \<Rightarrow> (Inr (), st\<lparr>collection := coll'\<rparr>, info')))"

text \<open>
  \<open>register_dataset\<close> returns \<open>dataset_info["uri"]\<close>. An error of a later step leaves
  what the earlier steps wrote.
\<close>

definition register_dataset :: "state \<Rightarrow> dict \<Rightarrow> (error + jvalue) \<times> state" where
  "register_dataset st dataset_info =
     (case dataset_info_is_valid dataset_info of
        Inl e \<Rightarrow> (Inl e, st)
      | Inr ok \<Rightarrow>
          if \<not> ok then (Inl ValidationError, st)
          else
            (case ebind (getitem dataset_info ''base_uri'') sql_bind of
               Inl e \<Rightarrow> (Inl e, st)
             | Inr b \<Rightarrow>
                 if \<not> base_uri_exists st b then (Inl ValidationError, st)
                 else
                   (case ebind (getitem dataset_info ''uri'') sql_bind of
                      Inl e \<Rightarrow> (Inl e, st)
                    | Inr r \<Rightarrow>
                        (case (if get_admin_metadata_from_uri st r = None
                               then register_dataset_admin_metadata st dataset_info
                               else (Inr (), st)) of
                           (Inl e, st1) \<Rightarrow> (Inl e, st1)
                         | (Inr u, st1) \<Rightarrow>
                             (case register_dataset_descriptive_metadata st1 dataset_info of
                                (Inl e, st2, info') \<Rightarrow> (Inl e, st2)
                              | (Inr u', st2, info') \<Rightarrow> (getitem info' ''uri'', st2))))))"


section \<open>The routes of the app package\<close>

text \<open>
  A view answers with a status and a body, aborts with a status, or lets an exception of
  its callee pass.
\<close>

datatype 'b response = Response nat 'b | Abort nat | Unhandled error

text \<open>\<open>index\<close>: the message is the body of a 200 response.\<close>

definition index :: "dict list \<Rightarrow> string response" where
  "index mongo_collection =
     Response 200 (str_nat (mongo_count mongo_collection) @ '' registered datasets'')"




section \<open>Consistent states and the words of the spec\<close>

text \<open>
  The validity of a payload in the words of the spec (section 4.3, step 1): the six
  required keys are present, the type is \<open>dataset\<close>, the uuid has 36 characters and the
  base URI has no trailing slash.
\<close>

definition payload_valid :: "dict \<Rightarrow> bool" where
  "payload_valid d \<longleftrightarrow>
     set [''uuid'', ''base_uri'', ''uri'', ''name'', ''type'', ''readme''] \<subseteq> fst ` set d \<and>
     map_of d ''type'' = Some (Str ''dataset'') \<and>
     (\<exists>u. map_of d ''uuid'' = Some (Str u) \<and> length u = 36) \<and>
     (\<exists>b. map_of d ''base_uri'' = Some (Str b) \<and> (b = [] \<or> last b \<noteq> CHR ''/''))"

text \<open>The base URI is registered: some row of the table carries the string.\<close>

definition registered :: "state \<Rightarrow> string \<Rightarrow> bool" where
  "registered st b \<longleftrightarrow> b \<in> base_uri ` set (base_uris st)"

text \<open>The key of a document of the descriptive store.\<close>

definition doc_key :: "dict \<Rightarrow> jvalue option \<times> jvalue option" where
  "doc_key d = (map_of d ''uuid'', map_of d ''uri'')"

text \<open>
  The keys of the stores: usernames, primary keys of base URIs, uris of datasets and the
  (uuid, uri) pairs of documents occur once; a granted base URI is a row of the table.
\<close>

definition consistent :: "state \<Rightarrow> bool" where
  "consistent st \<longleftrightarrow>
     distinct (map username (users st)) \<and>
     distinct (map base_uri_pk (base_uris st)) \<and>
     distinct (map uri (datasets st)) \<and>
     distinct (map doc_key (collection st)) \<and>
     list_all (\<lambda>u. list_all (\<lambda>g. g \<in> set (base_uris st)) (search_base_uris u) \<and>
                   list_all (\<lambda>g. g \<in> set (base_uris st)) (register_base_uris u)) (users st)"

text \<open>The search and register edges of a state, as pairs of a username and a base URI.\<close>

definition search_edges :: "state \<Rightarrow> (string \<times> BaseURI) set" where
  "search_edges st = {(username u, g) | u g. u \<in> set (users st) \<and> g \<in> set (search_base_uris u)}"

definition register_edges :: "state \<Rightarrow> (string \<times> BaseURI) set" where
  "register_edges st = {(username u, g) | u g. u \<in> set (users st) \<and> g \<in> set (register_base_uris u)}"


section \<open>Example data\<close>

text \<open>
  The example of the spec (section 8): the base URI \<open>s3://bucket\<close> is registered, and the
  payload describes the dataset \<open>s3://bucket/abc\<close>. A second base URI and two users are
  added, of whom \<open>alice\<close> may search the first base URI only.
\<close>

definition bucket :: BaseURI where
  "bucket = \<lparr>base_uri_pk = 1, base_uri = ''s3://bucket''\<rparr>"

definition vault :: BaseURI where
  "vault = \<lparr>base_uri_pk = 2, base_uri = ''s3://vault''\<rparr>"

definition alice :: User where
  "alice = \<lparr>username = ''alice'', is_admin = False,
             search_base_uris = [bucket], register_base_uris = []\<rparr>"

definition bob :: User where
  "bob = \<lparr>username = ''bob'', is_admin = False,
           search_base_uris = [], register_base_uris = []\<rparr>"

definition demo_state :: state where
  "demo_state = \<lparr>users = [alice, bob], base_uris = [bucket, vault], datasets = [],
                  collection = []\<rparr>"

definition demo_uuid :: string where
  "demo_uuid = ''aaaaaaaa-bbbb-cccc-dddd-eeeeeeeeeeee''"

definition demo_payload :: dict where
  "demo_payload = [(''uuid'', Str demo_uuid), (''base_uri'', Str ''s3://bucket''),
                   (''uri'', Str ''s3://bucket/abc''), (''name'', Str ''n''),
                   (''type'', Str ''dataset''), (''readme'', Str ''r'')]"

text \<open>
  The documents that the store holds for the two payloads of the example, with the
  identifiers that it generates for them.
\<close>

definition demo_doc :: dict where
  "demo_doc = setitem demo_payload ''_id'' (ObjectId 1)"


text \<open>The state after the payload of the example has been registered.\<close>

definition once_state :: state where
  "once_state = snd (register_dataset demo_state demo_payload)"




text \<open>
  The uri of the example is registered once more under a second uuid, and a dataset is
  registered under the second base URI.
\<close>

definition other_uuid :: string where
  "other_uuid = ''11111111-2222-3333-4444-555555555555''"

definition reissued_payload :: dict where
  "reissued_payload = setitem demo_payload ''uuid'' (Str other_uuid)"

definition reissued_state :: state where
  "reissued_state = snd (register_dataset once_state reissued_payload)"

definition vault_payload :: dict where
  "vault_payload = [(''uuid'', Str other_uuid), (''base_uri'', Str ''s3://vault''),
                    (''uri'', Str ''s3://vault/xyz''), (''name'', Str ''n''),
                    (''type'', Str ''dataset''), (''readme'', Str ''q'')]"

definition vault_doc :: dict where
  "vault_doc = setitem vault_payload ''_id'' (ObjectId 2)"

definition full_state :: state where
  "full_state = snd (register_dataset once_state vault_payload)"

text \<open>
  Two query dictionaries in the heap: the query of the example, and one that asks for the
  base URI that \<open>alice\<close> may not search.
\<close>

definition demo_heap :: heap where
  "demo_heap = \<lparr>cells = (\<lambda>a. [])(0 := [(''name'', Str ''n'')],
                                     1 := [(''name'', Str ''n''),
                                           (''base_uri'', Str ''s3://vault'')]),
                heap_top = 2\<rparr>"

text \<open>
  What a permissions spec grants in a state: the pairs of a listed username that exists
  and the base URI of the spec.
\<close>

definition search_grants :: "state \<Rightarrow> permissions \<Rightarrow> BaseURI \<Rightarrow> (string \<times> BaseURI) set" where
  "search_grants st p b =
     {(n, b) | n. n \<in> set (users_with_search_permissions p) \<and> n \<in> username ` set (users st)}"

definition register_grants :: "state \<Rightarrow> permissions \<Rightarrow> BaseURI \<Rightarrow> (string \<times> BaseURI) set" where
  "register_grants st p b =
     {(n, b) | n. n \<in> set (users_with_register_permissions p) \<and> n \<in> username ` set (users st)}"

text \<open>Permission specs for the example: on an unregistered base URI, and on the second one.\<close>

definition nowhere_perms :: permissions where
  "nowhere_perms = \<lparr>perm_base_uri = ''s3://nowhere'',
                     users_with_search_permissions = [''alice'', ''bob''],
                     users_with_register_permissions = [''alice'']\<rparr>"

definition ghost_perms :: permissions where
  "ghost_perms = \<lparr>perm_base_uri = ''s3://nowhere'',
                   users_with_search_permissions = [''carol''],
                   users_with_register_permissions = []\<rparr>"

definition vault_perms :: permissions where
  "vault_perms = \<lparr>perm_base_uri = ''s3://vault'',
                   users_with_search_permissions = [''alice'', ''carol''],
                   users_with_register_permissions = [''bob'']\<rparr>"

definition vault_perms_again :: permissions where
  "vault_perms_again = \<lparr>perm_base_uri = ''s3://vault'',
                   users_with_search_permissions = [''bob'', ''alice''],
                   users_with_register_permissions = []\<rparr>"

definition strangers_perms :: permissions where
  "strangers_perms = \<lparr>perm_base_uri = ''s3://vault'',
                   users_with_search_permissions = [''carol''],
                   users_with_register_permissions = [''dave'']\<rparr>"

text \<open>The state of a fresh installation.\<close>

definition empty_state :: state where
  "empty_state = \<lparr>users = [], base_uris = [], datasets = [], collection = []\<rparr>"

text \<open>
  Payloads as a client may post them: the uuid is a number; the base URI is \<open>null\<close>; the
  payload of the second dataset carries the \<open>_id\<close> that the first document has in the
  store.
\<close>

definition numeric_uuid_payload :: dict where
  "numeric_uuid_payload = setitem demo_payload ''uuid'' (Num 5)"

definition null_base_payload :: dict where
  "null_base_payload = setitem demo_payload ''base_uri'' Null"



section \<open>Dictionaries and validation\<close>

lemma contains_iff: "contains d k \<longleftrightarrow> k \<in> fst ` set d"
proof -
  have "contains d k \<longleftrightarrow> map_of d k \<noteq> None"
    by (simp add: contains_def split: option.splits)
  then show ?thesis by (simp add: map_of_eq_None_iff)
qed


lemma required_keys_loop_iff: "required_keys_loop ks d \<longleftrightarrow> set ks \<subseteq> fst ` set d"
  by (induction ks) (auto simp: contains_iff)

lemma endswith_slash_iff: "endswith_slash s \<longleftrightarrow> s \<noteq> [] \<and> last s = CHR ''/''"
  by (cases s rule: rev_cases) (simp_all add: endswith_slash_def)

lemma in_keys_map_of: "k \<in> fst ` set d \<Longrightarrow> \<exists>v. map_of d k = Some v"
  by (metis map_of_eq_None_iff not_None_eq)

text \<open>A payload that is valid in the words of the spec passes the validation of the code.\<close>

lemma dataset_info_is_valid_payload: "payload_valid d \<Longrightarrow> dataset_info_is_valid d = Inr True"
  by (auto simp: payload_valid_def dataset_info_is_valid_def required_keys_loop_iff
      DATASET_INFO_REQUIRED_KEYS_def getitem_def ebind_def endswith_slash_iff)

text \<open>
  Where the uuid and the base URI are strings, the validation of the code decides the
  validity of the spec and does not raise.
\<close>

lemma dataset_info_is_valid_strings:
  assumes "\<And>v. map_of d ''uuid'' = Some v \<Longrightarrow> \<exists>s. v = Str s"
    and "\<And>v. map_of d ''base_uri'' = Some v \<Longrightarrow> \<exists>s. v = Str s"
  shows "dataset_info_is_valid d = Inr (payload_valid d)"
proof (cases "set DATASET_INFO_REQUIRED_KEYS \<subseteq> fst ` set d")
  case False
  then have "\<not> payload_valid d"
    unfolding payload_valid_def DATASET_INFO_REQUIRED_KEYS_def by blast
  with False show ?thesis
    by (simp add: dataset_info_is_valid_def required_keys_loop_iff)
next
  case True
  then have "''type'' \<in> fst ` set d" "''uuid'' \<in> fst ` set d" "''base_uri'' \<in> fst ` set d"
    by (simp_all add: DATASET_INFO_REQUIRED_KEYS_def)
  then obtain t u b where tub: "map_of d ''type'' = Some t" "map_of d ''uuid'' = Some u"
    "map_of d ''base_uri'' = Some b"
    by (meson in_keys_map_of)
  from assms tub obtain us bs where s: "u = Str us" "b = Str bs" by blast
  with True tub show ?thesis
    by (simp add: dataset_info_is_valid_def required_keys_loop_iff payload_valid_def
        DATASET_INFO_REQUIRED_KEYS_def getitem_def ebind_def endswith_slash_iff)
qed

text \<open>What the code has checked when its validation returns \<open>True\<close>.\<close>

lemma dataset_info_is_valid_True:
  assumes "dataset_info_is_valid d = Inr True"
  shows "set DATASET_INFO_REQUIRED_KEYS \<subseteq> fst ` set d"
    and "map_of d ''type'' = Some (Str ''dataset'')"
    and "\<exists>u. map_of d ''uuid'' = Some u \<and> py_len u = Inr 36"
    and "\<exists>b. map_of d ''base_uri'' = Some (Str b) \<and> \<not> endswith_slash b"
proof -
  show keys: "set DATASET_INFO_REQUIRED_KEYS \<subseteq> fst ` set d"
    using assms by (auto simp: dataset_info_is_valid_def required_keys_loop_iff split: if_splits)
  then have "''type'' \<in> fst ` set d" "''uuid'' \<in> fst ` set d" "''base_uri'' \<in> fst ` set d"
    by (simp_all add: DATASET_INFO_REQUIRED_KEYS_def)
  then obtain t u b where tub: "map_of d ''type'' = Some t" "map_of d ''uuid'' = Some u"
    "map_of d ''base_uri'' = Some b"
    by (meson in_keys_map_of)
  from assms keys tub have t: "t = Str ''dataset''"
    by (auto simp: dataset_info_is_valid_def required_keys_loop_iff getitem_def ebind_def
        split: if_splits)
  from assms keys tub t have u: "py_len u = Inr 36"
    by (auto simp: dataset_info_is_valid_def required_keys_loop_iff getitem_def ebind_def
        split: if_splits sum.splits)
  from assms keys tub t u have b: "py_endswith_slash b = Inr False"
    by (auto simp: dataset_info_is_valid_def required_keys_loop_iff getitem_def ebind_def
        split: if_splits sum.splits)
  then obtain bs where "b = Str bs" "\<not> endswith_slash bs"
    by (cases b) simp_all
  with tub t u show "map_of d ''type'' = Some (Str ''dataset'')"
    and "\<exists>u. map_of d ''uuid'' = Some u \<and> py_len u = Inr 36"
    and "\<exists>b. map_of d ''base_uri'' = Some (Str b) \<and> \<not> endswith_slash b"
    by simp_all
qed

lemma private_get_base_uri_obj_None:
  "private_get_base_uri_obj st b = None \<longleftrightarrow> \<not> registered st b"
  by (auto simp: private_get_base_uri_obj_def registered_def find_None_iff)

lemma base_uri_exists_iff: "base_uri_exists st b \<longleftrightarrow> registered st b"
  by (simp add: base_uri_exists_def private_get_base_uri_obj_None)


section \<open>Registration aborts before any write\<close>

text \<open>
  Whenever the validation does not return \<open>True\<close>, \<open>register_dataset\<close> raises and the state
  after the call is the state before it; it raises ValidationError when the validation
  returns \<open>False\<close>, and the error of the validation when that raises.
\<close>

lemma register_dataset_no_write:
  assumes "dataset_info_is_valid d \<noteq> Inr True"
  shows "\<exists>e. register_dataset st d = (Inl e, st)"
  using assms by (cases "dataset_info_is_valid d") (auto simp: register_dataset_def)

lemma register_dataset_invalid:
  "dataset_info_is_valid d = Inr False \<Longrightarrow> register_dataset st d = (Inl ValidationError, st)"
  by (simp add: register_dataset_def)

lemma register_dataset_raises:
  "dataset_info_is_valid d = Inl e \<Longrightarrow> register_dataset st d = (Inl e, st)"
  by (simp add: register_dataset_def)

lemma register_dataset_unregistered:
  "map_of d ''base_uri'' = Some (Str b) \<Longrightarrow> \<not> registered st b \<Longrightarrow>
   \<exists>e. register_dataset st d = (Inl e, st)"
  by (cases "dataset_info_is_valid d")
    (auto simp: register_dataset_def getitem_def ebind_def base_uri_exists_iff)

text \<open>
  For payloads whose uuid and base URI are strings this is the claim: ValidationError and
  no write unless the payload is valid and its base URI registered.
\<close>

lemma register_dataset_rejects_strings:
  assumes "\<And>v. map_of d ''uuid'' = Some v \<Longrightarrow> \<exists>s. v = Str s"
    and "\<And>v. map_of d ''base_uri'' = Some v \<Longrightarrow> \<exists>s. v = Str s"
    and "\<not> payload_valid d \<or> (\<exists>b. map_of d ''base_uri'' = Some (Str b) \<and> \<not> registered st b)"
  shows "register_dataset st d = (Inl ValidationError, st)"
  using assms(3) dataset_info_is_valid_strings [OF assms(1,2)]
  by (auto simp: register_dataset_def getitem_def ebind_def base_uri_exists_iff)

text \<open>
  C1. The code breaks the claim on payloads that the endpoint can receive: with a number
  as uuid the validation raises the TypeError of \<open>len\<close>, and with \<open>null\<close> as base URI the
  AttributeError of \<open>endswith\<close>, where the claim demands ValidationError. Nothing is
  written in either case.
\<close>

theorem register_dataset_ill_typed:
  "\<not> payload_valid numeric_uuid_payload \<and>
   register_dataset demo_state numeric_uuid_payload = (Inl TypeError, demo_state) \<and>
   \<not> payload_valid null_base_payload \<and>
   register_dataset demo_state null_base_payload = (Inl AttributeError, demo_state)"
proof -
  have 1: "dataset_info_is_valid numeric_uuid_payload = Inl TypeError"
    by (simp add: dataset_info_is_valid_def numeric_uuid_payload_def demo_payload_def
        DATASET_INFO_REQUIRED_KEYS_def contains_def getitem_def ebind_def)
  have 2: "dataset_info_is_valid null_base_payload = Inl AttributeError"
    by (simp add: dataset_info_is_valid_def null_base_payload_def demo_payload_def
        DATASET_INFO_REQUIRED_KEYS_def contains_def getitem_def ebind_def demo_uuid_def)
  have 3: "\<not> payload_valid numeric_uuid_payload"
    by (simp add: payload_valid_def numeric_uuid_payload_def demo_payload_def)
  have 4: "\<not> payload_valid null_base_payload"
    by (simp add: payload_valid_def null_base_payload_def demo_payload_def)
  from 1 2 3 4 show ?thesis by (simp add: register_dataset_raises)
qed


section \<open>A successful registration\<close>

lemma map_of_delitem: "k \<noteq> k' \<Longrightarrow> map_of (delitem d k') k = map_of d k"
  by (induction d) (auto simp: delitem_def)

lemma map_of_setitem: "map_of (setitem d k v) k' = (if k' = k then Some v else map_of d k')"
  by (induction d) auto



lemma get_base_uri_obj_registered:
  "registered st b \<Longrightarrow>
     \<exists>obj. private_get_base_uri_obj st b = Some obj \<and> get_base_uri_obj st b = Inr obj"
  using private_get_base_uri_obj_None [of st b]
  by (auto simp: get_base_uri_obj_def)

lemma private_get_base_uri_obj_datasets [simp]:
  "private_get_base_uri_obj (st\<lparr>datasets := x\<rparr>) b = private_get_base_uri_obj st b"
  by (simp add: private_get_base_uri_obj_def)

lemma get_base_uri_obj_datasets [simp]:
  "get_base_uri_obj (st\<lparr>datasets := x\<rparr>) b = get_base_uri_obj st b"
  by (simp add: get_base_uri_obj_def)

text \<open>
  Neither branch of the insert-or-replace touches a field of the caller's dictionary
  other than \<open>_id\<close>.
\<close>

lemma upsert_info:
  assumes "upsert coll q d = Inr (coll', info1)" and "k \<noteq> ''_id''"
  shows "map_of (if contains info1 ''_id'' then delitem info1 ''_id'' else info1) k = map_of d k"
proof -
  have "map_of info1 k = map_of d k"
    using assms
    by (auto simp: upsert_def insert_one_def Let_def map_of_setitem
        split: option.splits if_splits sum.splits)
  then show ?thesis using assms(2) by (simp add: map_of_delitem)
qed

lemma private_register_upsert:
  assumes "dataset_info_is_valid d = Inr True"
    and "map_of d ''uuid'' = Some u" and "map_of d ''uri'' = Some r"
  shows "private_register_dataset_descriptive_metadata coll d =
     (case upsert coll [(''uuid'', u), (''uri'', r)] d of
        Inl e \<Rightarrow> (Inl e, coll, d)
      | Inr (coll', info1) \<Rightarrow>
          (Inr (Some u), coll', if contains info1 ''_id'' then delitem info1 ''_id'' else info1))"
proof (cases "upsert coll [(''uuid'', u), (''uri'', r)] d")
  case (Inl e)
  with assms show ?thesis
    by (simp add: private_register_dataset_descriptive_metadata_def getitem_def ebind_def)
next
  case (Inr p)
  obtain coll' info1 where p: "p = (coll', info1)" by (cases p)
  from upsert_info [OF Inr [unfolded p], of "''uuid''"] assms(2)
  have "getitem (if contains info1 ''_id'' then delitem info1 ''_id'' else info1) ''uuid'' = Inr u"
    by (simp add: getitem_def)
  with assms Inr p show ?thesis
    by (simp add: private_register_dataset_descriptive_metadata_def getitem_def ebind_def Let_def)
qed

text \<open>
  The state in which the admin record of the payload has been reconciled: the record is
  inserted unless the uri has one.
\<close>

lemma register_dataset_steps:
  assumes v: "dataset_info_is_valid d = Inr True"
    and b: "map_of d ''base_uri'' = Some (Str b)"
    and reg: "private_get_base_uri_obj st b = Some obj"
    and u: "map_of d ''uuid'' = Some (Str u)" and r: "map_of d ''uri'' = Some (Str r)"
    and n: "map_of d ''name'' = Some (Str n)"
  defines "st1 \<equiv> st\<lparr>datasets :=
            (if List.find (\<lambda>ds. uri ds = r) (datasets st) = None
             then datasets st @ [\<lparr>uri = r, base_uri_id = base_uri_pk obj, uuid = u, name = n\<rparr>]
             else datasets st)\<rparr>"
  shows "register_dataset st d =
     (case upsert (collection st) [(''uuid'', Str u), (''uri'', Str r)] d of
        Inl e \<Rightarrow> (Inl e, st1)
      | Inr (coll', info1) \<Rightarrow> (Inr (Str r), st1\<lparr>collection := coll'\<rparr>))"
proof -
  have g: "get_base_uri_obj st b = Inr obj"
    using reg by (simp add: get_base_uri_obj_def)
  have ex: "base_uri_exists st b"
    using reg by (simp add: base_uri_exists_def)
  have admin: "(if get_admin_metadata_from_uri st r = None
                then register_dataset_admin_metadata st d else (Inr (), st)) = (Inr (), st1)"
  proof (cases "List.find (\<lambda>ds. uri ds = r) (datasets st)")
    case None
    then have fresh: "\<not> list_ex (\<lambda>x. uri x = r) (datasets st)"
      by (simp add: find_None_iff list_ex_iff)
    with None b g u r n show ?thesis
      by (simp add: get_admin_metadata_from_uri_def register_dataset_admin_metadata_def
          getitem_def ebind_def sql_add_dataset_def st1_def)
  next
    case (Some a)
    then show ?thesis
      by (simp add: get_admin_metadata_from_uri_def st1_def)
  qed
  have g1: "get_base_uri_obj st1 b = Inr obj" using g by (simp add: st1_def)
  have c1: "collection st1 = collection st" by (simp add: st1_def)
  show ?thesis
  proof (cases "upsert (collection st) [(''uuid'', Str u), (''uri'', Str r)] d")
    case (Inl e)
    with v b ex r admin g1 show ?thesis
      by (simp add: register_dataset_def getitem_def ebind_def
          register_dataset_descriptive_metadata_def c1 private_register_upsert [OF v u r])
  next
    case (Inr p)
    obtain coll' info1 where p: "p = (coll', info1)" by (cases p)
    from upsert_info [OF Inr [unfolded p], of "''uri''"] r
    have ret: "getitem (if contains info1 ''_id'' then delitem info1 ''_id'' else info1) ''uri''
        = Inr (Str r)"
      by (simp add: getitem_def)
    with v b ex r admin g1 Inr p show ?thesis
      by (simp add: register_dataset_def getitem_def ebind_def
          register_dataset_descriptive_metadata_def c1 private_register_upsert [OF v u r])
  qed
qed


section \<open>Keys that occur once\<close>

lemma filter_unique_key:
  "distinct (map f xs) \<Longrightarrow> x \<in> set xs \<Longrightarrow> filter (\<lambda>y. f y = f x) xs = [x]"
proof (induction xs)
  case Nil
  then show ?case by simp
next
  case (Cons y ys)
  show ?case
  proof (cases "y = x")
    case True
    with Cons.prems(1) have "\<forall>z \<in> set ys. f z \<noteq> f x"
      by (metis distinct.simps(2) image_eqI list.simps(9) list.set_map)
    then have "filter (\<lambda>y. f y = f x) ys = []" by (simp add: filter_empty_conv)
    with True show ?thesis by simp
  next
    case False
    with Cons.prems have "x \<in> set ys" "f y \<noteq> f x" by auto
    with Cons show ?thesis by simp
  qed
qed

lemma update_first_keys:
  "(\<And>x. P x \<Longrightarrow> f (g x) = f x) \<Longrightarrow> map f (update_first P g xs) = map f xs"
  by (induction xs) auto




lemma find_Some_in: "List.find P xs = Some x \<Longrightarrow> x \<in> set xs \<and> P x"
  by (induction xs) (auto split: if_splits)

lemma matches_key:
  "matches [(''uuid'', u), (''uri'', r)] doc \<longleftrightarrow> doc_key doc = (Some u, Some r)"
  by (simp add: matches_def doc_key_def)

lemma doc_key_setitem_id: "doc_key (setitem d ''_id'' v) = doc_key d"
  by (simp add: doc_key_def map_of_setitem)



section \<open>The example, evaluated\<close>


lemma demo_payload_valid: "payload_valid demo_payload"
  by (simp add: payload_valid_def demo_payload_def demo_uuid_def)

lemma bucket_found:
  "base_uris st = [bucket, vault] \<Longrightarrow> private_get_base_uri_obj st ''s3://bucket'' = Some bucket"
  by (simp add: private_get_base_uri_obj_def bucket_def vault_def)

lemma register_demo:
  "register_dataset demo_state demo_payload =
     (Inr (Str ''s3://bucket/abc''),
      demo_state\<lparr>datasets := [\<lparr>uri = ''s3://bucket/abc'', base_uri_id = 1, uuid = demo_uuid,
                                 name = ''n''\<rparr>],
                 collection := [demo_doc]\<rparr>)"
proof -
  have up: "upsert (collection demo_state)
      [(''uuid'', Str demo_uuid), (''uri'', Str ''s3://bucket/abc'')] demo_payload =
      Inr ([demo_doc], demo_doc)"
    by (simp add: upsert_def find_one_def insert_one_def demo_state_def demo_payload_def
        demo_doc_def fresh_oid_def Let_def)
  have bf: "private_get_base_uri_obj demo_state ''s3://bucket'' = Some bucket"
    by (rule bucket_found) (simp add: demo_state_def)
  have m: "map_of demo_payload ''base_uri'' = Some (Str ''s3://bucket'')"
    "map_of demo_payload ''uuid'' = Some (Str demo_uuid)"
    "map_of demo_payload ''uri'' = Some (Str ''s3://bucket/abc'')"
    "map_of demo_payload ''name'' = Some (Str ''n'')"
    by (simp_all add: demo_payload_def)
  from register_dataset_steps [OF dataset_info_is_valid_payload [OF demo_payload_valid]
      m(1) bf m(2,3,4)] up
  show ?thesis
    by (simp add: demo_state_def bucket_def)
qed

lemma once_state_eq:
  "once_state =
     demo_state\<lparr>datasets := [\<lparr>uri = ''s3://bucket/abc'', base_uri_id = 1, uuid = demo_uuid,
                                name = ''n''\<rparr>],
                collection := [demo_doc]\<rparr>"
  by (simp add: once_state_def register_demo)








section \<open>Registering the same payload twice\<close>





section \<open>The readme of an unknown uri\<close>

lemma matches_uri: "matches [(''uri'', r)] d \<longleftrightarrow> map_of d ''uri'' = Some r"
  by (simp add: matches_def)

text \<open>
  C10. When no document of the descriptive store has the uri, \<open>find_one\<close> returns no
  document and \<open>get_readme_from_uri\<close> fails with the TypeError of subscripting \<open>None\<close>:
  it neither returns \<open>None\<close> nor raises one of the two errors of the package.
\<close>

theorem get_readme_from_uri_missing:
  assumes "\<forall>d \<in> set (collection st). map_of d ''uri'' \<noteq> Some (Str r)"
  shows "find_one (collection st) [(''uri'', Str r)] = None \<and>
         get_readme_from_uri st r = Inl TypeError"
proof -
  have "find_one (collection st) [(''uri'', Str r)] = None"
    using assms by (simp add: find_one_def find_None_iff matches_uri)
  then show ?thesis by (simp add: get_readme_from_uri_def)
qed

theorem get_readme_from_uri_missing_witness:
  "map (\<lambda>d. map_of d ''uri'') (collection once_state) = [Some (Str ''s3://bucket/abc'')] \<and>
   find_one (collection once_state) [(''uri'', Str ''s3://bucket/xyz'')] = None \<and>
   get_readme_from_uri once_state ''s3://bucket/xyz'' = Inl TypeError"
  using get_readme_from_uri_missing [of once_state "''s3://bucket/xyz''"]
  by (simp add: once_state_eq demo_doc_def demo_payload_def)


section \<open>The success token and the route\<close>










section \<open>The index route\<close>

lemma digit_val_char: "k < 10 \<Longrightarrow> digit_val (digit_char k) = k"
proof -
  assume "k < 10"
  then have "k \<in> {0, 1, 2, 3, 4, 5, 6, 7, 8, 9}" by auto
  then show ?thesis
    by (auto simp: digit_val_def digit_char_def)
qed

lemma nat_of_str_snoc: "nat_of_str (s @ [c]) = 10 * nat_of_str s + digit_val c"
  by (simp add: nat_of_str_def)

lemma nat_of_str_str_nat: "nat_of_str (str_nat n) = n"
proof (induction n rule: str_nat.induct)
  case (1 n)
  show ?case
  proof (cases "n < 10")
    case True
    then show ?thesis
      by (subst str_nat.simps) (simp add: nat_of_str_def digit_val_char)
  next
    case False
    have "digit_val (digit_char (n mod 10)) = n mod 10"
      by (simp add: digit_val_char)
    with False 1 show ?thesis
      by (subst str_nat.simps) (simp add: nat_of_str_snoc)
  qed
qed

text \<open>
  C7, as amended. The index route answers with the text \<open>N registered datasets\<close>, where
  \<open>N\<close> is the decimal numeral of the number of documents in the descriptive collection.
\<close>

theorem index_counts_documents:
  "index coll = Response 200 (str_nat (length coll) @ '' registered datasets'') \<and>
   nat_of_str (str_nat (length coll)) = length coll"
proof
  show "index coll = Response 200 (str_nat (length coll) @ '' registered datasets'')"
    unfolding index_def mongo_count_def ..
  show "nat_of_str (str_nat (length coll)) = length coll"
    by (rule nat_of_str_str_nat)
qed

lemma reissued_payload_valid: "payload_valid reissued_payload"
  by (simp add: payload_valid_def reissued_payload_def demo_payload_def other_uuid_def)

lemma register_reissued:
  "register_dataset once_state reissued_payload =
     (Inr (Str ''s3://bucket/abc''),
      once_state\<lparr>collection := [demo_doc, setitem reissued_payload ''_id'' (ObjectId 2)]\<rparr>)"
proof -
  have up: "upsert (collection once_state)
      [(''uuid'', Str other_uuid), (''uri'', Str ''s3://bucket/abc'')] reissued_payload =
      Inr ([demo_doc, setitem reissued_payload ''_id'' (ObjectId 2)],
           setitem reissued_payload ''_id'' (ObjectId 2))"
    by (simp add: once_state_eq upsert_def find_one_def insert_one_def matches_def
        reissued_payload_def demo_payload_def demo_doc_def fresh_oid_def Let_def
        demo_uuid_def other_uuid_def)
  have m: "map_of reissued_payload ''base_uri'' = Some (Str ''s3://bucket'')"
    "map_of reissued_payload ''uuid'' = Some (Str other_uuid)"
    "map_of reissued_payload ''uri'' = Some (Str ''s3://bucket/abc'')"
    "map_of reissued_payload ''name'' = Some (Str ''n'')"
    by (simp_all add: reissued_payload_def demo_payload_def)
  have bf: "private_get_base_uri_obj once_state ''s3://bucket'' = Some bucket"
    by (rule bucket_found) (simp add: once_state_eq demo_state_def)
  have ds: "List.find (\<lambda>ds. uri ds = ''s3://bucket/abc'') (datasets once_state) \<noteq> None"
    by (simp add: once_state_eq)
  from register_dataset_steps [OF dataset_info_is_valid_payload [OF reissued_payload_valid]
      m(1) bf m(2,3,4)] up ds
  show ?thesis by simp
qed

text \<open>
  The number shown is not the number of admin records: after the uri of the example has
  been registered under two uuids there is one admin record, and the route shows 2.
\<close>

theorem index_counts_documents_counterexample:
  "register_dataset once_state reissued_payload = (Inr (Str ''s3://bucket/abc''), reissued_state) \<and>
   length (datasets reissued_state) = 1 \<and>
   index (collection reissued_state) = Response 200 ''2 registered datasets''"
proof -
  have s: "reissued_state =
      once_state\<lparr>collection := [demo_doc, setitem reissued_payload ''_id'' (ObjectId 2)]\<rparr>"
    by (simp add: reissued_state_def register_reissued)
  have c1: "register_dataset once_state reissued_payload =
      (Inr (Str ''s3://bucket/abc''), reissued_state)"
    by (simp add: s register_reissued)
  have c2: "length (datasets reissued_state) = 1"
    by (simp add: s once_state_eq)
  have c3: "index (collection reissued_state) = Response 200 ''2 registered datasets''"
    by (simp add: s index_def mongo_count_def digit_char_def str_nat.simps [of "Suc (Suc 0)"])
  from c1 c2 c3 show ?thesis by simp
qed


section \<open>Searching within the scope of a user\<close>

lemma search_loop_heap:
  "search_loop coll h q bs acc = (ds, h') \<Longrightarrow> a < heap_top h \<Longrightarrow>
     cells h' a = cells h a \<and> heap_top h \<le> heap_top h'"
proof (induction bs arbitrary: h acc)
  case Nil
  then show ?case by simp
next
  case (Cons b bs)
  let ?h2 = "heap_setitem (snd (dict_copy h q)) (heap_top h) ''base_uri'' (Str (base_uri b))"
  from Cons.prems(1) obtain acc' where
    rec: "search_loop coll ?h2 q bs acc' = (ds, h')"
    by (simp add: dict_copy_def Let_def)
  have top2: "heap_top ?h2 = Suc (heap_top h)" and cells2: "cells ?h2 a = cells h a"
    using Cons.prems(2) by (simp_all add: dict_copy_def heap_setitem_def)
  from Cons.IH [OF rec] Cons.prems(2) top2 cells2 show ?case by simp
qed

lemma search_loop_result:
  "q < heap_top h \<Longrightarrow>
   fst (search_loop coll h q bs acc) =
     acc @ concat (map (\<lambda>b. mongo_find coll (setitem (cells h q) ''base_uri'' (Str (base_uri b)))) bs)"
proof (induction bs arbitrary: h acc)
  case Nil
  then show ?case by simp
next
  case (Cons b bs)
  let ?h2 = "heap_setitem (snd (dict_copy h q)) (heap_top h) ''base_uri'' (Str (base_uri b))"
  have top2: "q < heap_top ?h2" and cells2: "cells ?h2 q = cells h q"
    and cellsc: "cells ?h2 (heap_top h) = setitem (cells h q) ''base_uri'' (Str (base_uri b))"
    using Cons.prems by (simp_all add: dict_copy_def heap_setitem_def)
  show ?case
    using Cons.IH [OF top2] cells2 cellsc by (simp add: dict_copy_def Let_def)
qed

lemma private_get_user_obj_None:
  "private_get_user_obj st n = None \<longleftrightarrow> n \<notin> username ` set (users st)"
  by (auto simp: private_get_user_obj_def find_None_iff)

lemma search_datasets_by_user_known:
  assumes "query < heap_top h" and "private_get_user_obj st n = Some user"
  shows "fst (search_datasets_by_user st h n query) =
       Inr (concat (map (\<lambda>b. mongo_find (collection st)
                               (setitem (cells h query) ''base_uri'' (Str (base_uri b))))
                      (search_base_uris user)))"
  using assms search_loop_result [of query h "collection st" "search_base_uris user" "[]"]
  by (simp add: search_datasets_by_user_def get_user_obj_def split_beta)

text \<open>
  C4. For a user that exists, \<open>search_datasets_by_user\<close> returns the concatenation, in
  the order of the user's \<open>search_base_uris\<close>, of what the descriptive store finds for
  the caller's query with \<open>base_uri\<close> set to each base URI of the scope; with an empty
  scope it returns the empty list; for an unknown username it raises AuthenticationError.
\<close>

theorem search_datasets_by_user_fans_out:
  assumes "query < heap_top h"
  shows "(\<forall>user. private_get_user_obj st n = Some user \<longrightarrow>
            fst (search_datasets_by_user st h n query) =
              Inr (concat (map (\<lambda>b. mongo_find (collection st)
                                      (setitem (cells h query) ''base_uri'' (Str (base_uri b))))
                             (search_base_uris user)))) \<and>
         (\<forall>user. private_get_user_obj st n = Some user \<and> search_base_uris user = [] \<longrightarrow>
            fst (search_datasets_by_user st h n query) = Inr []) \<and>
         (n \<notin> username ` set (users st) \<longrightarrow>
            fst (search_datasets_by_user st h n query) = Inl AuthenticationError)"
proof (intro conjI allI impI)
  fix user assume "private_get_user_obj st n = Some user"
  with assms show "fst (search_datasets_by_user st h n query) =
       Inr (concat (map (\<lambda>b. mongo_find (collection st)
                               (setitem (cells h query) ''base_uri'' (Str (base_uri b))))
                      (search_base_uris user)))"
    by (rule search_datasets_by_user_known)
next
  fix user assume "private_get_user_obj st n = Some user \<and> search_base_uris user = []"
  with search_datasets_by_user_known [OF assms, of st n user]
  show "fst (search_datasets_by_user st h n query) = Inr []" by simp
next
  assume "n \<notin> username ` set (users st)"
  then have "private_get_user_obj st n = None" by (simp add: private_get_user_obj_None)
  then show "fst (search_datasets_by_user st h n query) = Inl AuthenticationError"
    by (simp add: search_datasets_by_user_def get_user_obj_def)
qed

lemma vault_payload_valid: "payload_valid vault_payload"
  by (simp add: payload_valid_def vault_payload_def other_uuid_def)

lemma full_state_eq:
  "full_state =
     demo_state\<lparr>datasets := [\<lparr>uri = ''s3://bucket/abc'', base_uri_id = 1, uuid = demo_uuid,
                                name = ''n''\<rparr>,
                              \<lparr>uri = ''s3://vault/xyz'', base_uri_id = 2, uuid = other_uuid,
                                name = ''n''\<rparr>],
                collection := [demo_doc, vault_doc]\<rparr>"
proof -
  have up: "upsert (collection once_state)
      [(''uuid'', Str other_uuid), (''uri'', Str ''s3://vault/xyz'')] vault_payload =
      Inr ([demo_doc, vault_doc], vault_doc)"
    by (simp add: once_state_eq upsert_def find_one_def insert_one_def matches_def
        vault_payload_def vault_doc_def demo_payload_def demo_doc_def fresh_oid_def Let_def
        demo_uuid_def other_uuid_def)
  have m: "map_of vault_payload ''base_uri'' = Some (Str ''s3://vault'')"
    "map_of vault_payload ''uuid'' = Some (Str other_uuid)"
    "map_of vault_payload ''uri'' = Some (Str ''s3://vault/xyz'')"
    "map_of vault_payload ''name'' = Some (Str ''n'')"
    by (simp_all add: vault_payload_def)
  have vf: "private_get_base_uri_obj once_state ''s3://vault'' = Some vault"
    by (simp add: private_get_base_uri_obj_def once_state_eq demo_state_def bucket_def vault_def)
  from register_dataset_steps [OF dataset_info_is_valid_payload [OF vault_payload_valid]
      m(1) vf m(2,3,4)] up
  show ?thesis
    by (simp add: full_state_def) (simp add: once_state_eq demo_state_def vault_def)
qed

lemma alice_found: "private_get_user_obj full_state ''alice'' = Some alice"
  by (simp add: private_get_user_obj_def full_state_eq demo_state_def alice_def)

lemma bob_found: "private_get_user_obj full_state ''bob'' = Some bob"
  by (simp add: private_get_user_obj_def full_state_eq demo_state_def alice_def bob_def)

theorem search_datasets_by_user_fans_out_witness:
  "0 < heap_top demo_heap \<and>
   private_get_user_obj full_state ''alice'' = Some alice \<and>
   fst (search_datasets_by_user full_state demo_heap ''alice'' 0) = Inr [demo_payload] \<and>
   private_get_user_obj full_state ''bob'' = Some bob \<and> search_base_uris bob = [] \<and>
   fst (search_datasets_by_user full_state demo_heap ''bob'' 0) = Inr [] \<and>
   ''carol'' \<notin> username ` set (users full_state) \<and>
   fst (search_datasets_by_user full_state demo_heap ''carol'' 0) = Inl AuthenticationError"
proof -
  have t: "0 < heap_top demo_heap" by (simp add: demo_heap_def)
  have c: "''carol'' \<notin> username ` set (users full_state)"
    by (simp add: full_state_eq demo_state_def alice_def bob_def)
  have e: "search_base_uris bob = []" by (simp add: bob_def)
  have v: "concat (map (\<lambda>b. mongo_find (collection full_state)
                               (setitem (cells demo_heap 0) ''base_uri'' (Str (base_uri b))))
                      (search_base_uris alice)) = [demo_payload]"
    by (simp add: full_state_eq demo_heap_def alice_def bucket_def mongo_find_def matches_def
        demo_doc_def vault_doc_def demo_payload_def vault_payload_def delitem_def)
  show ?thesis
    using search_datasets_by_user_fans_out [OF t, of full_state "''alice''"]
      search_datasets_by_user_fans_out [OF t, of full_state "''bob''"]
      search_datasets_by_user_fans_out [OF t, of full_state "''carol''"]
      t c e v alice_found bob_found
    by simp
qed

lemma setitem_sets: "(k, v) \<in> set (setitem d k v)"
  by (induction d) auto

lemma matches_pinned: "matches (setitem q k v) doc \<Longrightarrow> map_of doc k = Some v"
  using setitem_sets [of k v q] by (auto simp: matches_def list_all_iff)

lemma mongo_find_pinned:
  assumes "d \<in> set (mongo_find coll (setitem q ''base_uri'' v))"
  shows "map_of d ''base_uri'' = Some v \<and>
         (\<exists>doc \<in> set coll. d = delitem doc ''_id'' \<and> map_of doc ''base_uri'' = Some v)"
  using assms by (auto simp: mongo_find_def map_of_delitem dest: matches_pinned)

text \<open>
  C9. Whatever the caller's query holds, also under \<open>base_uri\<close>, every document that
  the search returns is a stored document whose \<open>base_uri\<close> is a base URI of the user's
  search scope; the caller's dictionary, and every other dictionary allocated before the
  call, is the same after the call.
\<close>

theorem search_datasets_by_user_confined:
  assumes q: "query < heap_top h" and user: "private_get_user_obj st n = Some user"
    and run: "search_datasets_by_user st h n query = (res, h')"
  shows "(\<exists>ds. res = Inr ds \<and>
            (\<forall>d \<in> set ds. \<exists>g \<in> set (search_base_uris user).
                map_of d ''base_uri'' = Some (Str (base_uri g)) \<and>
                (\<exists>doc \<in> set (collection st).
                    d = delitem doc ''_id'' \<and> map_of doc ''base_uri'' = Some (Str (base_uri g))))) \<and>
         cells h' query = cells h query \<and>
         (\<forall>a < heap_top h. cells h' a = cells h a)"
proof -
  let ?ds = "concat (map (\<lambda>b. mongo_find (collection st)
                               (setitem (cells h query) ''base_uri'' (Str (base_uri b))))
                      (search_base_uris user))"
  from search_datasets_by_user_known [OF q user] run have res: "res = Inr ?ds" by simp
  have conf: "\<forall>d \<in> set ?ds. \<exists>g \<in> set (search_base_uris user).
                map_of d ''base_uri'' = Some (Str (base_uri g)) \<and>
                (\<exists>doc \<in> set (collection st).
                    d = delitem doc ''_id'' \<and> map_of doc ''base_uri'' = Some (Str (base_uri g)))"
    using mongo_find_pinned by fastforce
  obtain ds0 where loop: "search_loop (collection st) h query (search_base_uris user) [] = (ds0, h')"
    using run user by (auto simp: search_datasets_by_user_def get_user_obj_def split: prod.splits)
  have heap: "\<forall>a < heap_top h. cells h' a = cells h a"
    using search_loop_heap [OF loop] by blast
  with q res conf show ?thesis by blast
qed

theorem search_datasets_by_user_confined_witness:
  "1 < heap_top demo_heap \<and> private_get_user_obj full_state ''alice'' = Some alice \<and>
   map_of (cells demo_heap 1) ''base_uri'' = Some (Str ''s3://vault'') \<and>
   fst (search_datasets_by_user full_state demo_heap ''alice'' 1) = Inr [demo_payload] \<and>
   cells (snd (search_datasets_by_user full_state demo_heap ''alice'' 1)) 1 = cells demo_heap 1"
proof -
  have t: "1 < heap_top demo_heap" by (simp add: demo_heap_def)
  have m: "map_of (cells demo_heap 1) ''base_uri'' = Some (Str ''s3://vault'')"
    by (simp add: demo_heap_def)
  have v: "concat (map (\<lambda>b. mongo_find (collection full_state)
                               (setitem (cells demo_heap 1) ''base_uri'' (Str (base_uri b))))
                      (search_base_uris alice)) = [demo_payload]"
    by (simp add: full_state_eq demo_heap_def alice_def bucket_def mongo_find_def matches_def
        demo_doc_def vault_doc_def demo_payload_def vault_payload_def delitem_def)
  have r: "fst (search_datasets_by_user full_state demo_heap ''alice'' 1) = Inr [demo_payload]"
    using search_datasets_by_user_known [OF t alice_found] v by simp
  have p: "search_datasets_by_user full_state demo_heap ''alice'' 1 =
      (fst (search_datasets_by_user full_state demo_heap ''alice'' 1),
       snd (search_datasets_by_user full_state demo_heap ''alice'' 1))"
    by simp
  show ?thesis
    using search_datasets_by_user_confined [OF t alice_found p] t m r alice_found
    by blast
qed

section \<open>Lookup by uuid within the scope of a user\<close>

lemma filter_product_row:
  "map fst (filter F (List.product xs ys)) =
     concat (map (\<lambda>x. replicate (length (filter (\<lambda>y. F (x, y)) ys)) x) xs)"
proof (induction xs)
  case Nil
  then show ?case by simp
next
  case (Cons x xs)
  have "map fst (filter F (map (Pair x) ys)) = replicate (length (filter (\<lambda>y. F (x, y)) ys)) x"
    by (induction ys) auto
  with Cons show ?case by simp
qed

lemma length_filter_product:
  "length (filter (\<lambda>(x, y). P x \<and> Q y) (List.product xs ys)) =
     length (filter P xs) * length (filter Q ys)"
proof (induction xs)
  case Nil
  then show ?case by simp
next
  case (Cons x xs)
  have "length (filter (\<lambda>(x, y). P x \<and> Q y) (map (Pair x) ys)) =
        (if P x then length (filter Q ys) else 0)"
    by (induction ys) auto
  with Cons show ?case by simp
qed

lemma concat_replicate_filter:
  "concat (map (\<lambda>x. replicate (if c x then 1 else 0) x) xs) = filter c xs"
  by (induction xs) auto

lemma find_username_unique:
  assumes "distinct (map username us)" and "List.find (\<lambda>u. username u = n) us = Some user"
  shows "filter (\<lambda>u. username u = n) us = [user]"
proof -
  from find_Some_in [OF assms(2)] have u: "user \<in> set us" "username user = n" by simp_all
  from filter_unique_key [OF assms(1) u(1)] u(2) show ?thesis by simp
qed

lemma granted_in_table:
  assumes "consistent st" and "user \<in> set (users st)" and "g \<in> set (search_base_uris user)"
  shows "g \<in> set (base_uris st)"
  using assms by (auto simp: consistent_def list_all_iff)

lemma join_count:
  assumes cons: "consistent st" and user: "private_get_user_obj st n = Some user"
  shows "length (filter (\<lambda>(b, u). uuid (ds :: Dataset) = x \<and> username u = n \<and> base_uri_pk b = base_uri_id ds \<and>
                     list_ex (\<lambda>g. base_uri_pk g = base_uri_id ds) (search_base_uris u))
           (List.product (base_uris st) (users st))) =
         (if uuid ds = x \<and> base_uri_id ds \<in> base_uri_pk ` set (search_base_uris user) then 1 else 0)"
proof -
  let ?G = "\<lambda>u. list_ex (\<lambda>g. base_uri_pk g = base_uri_id ds) (search_base_uris u)"
  have du: "distinct (map username (users st))" and db: "distinct (map base_uri_pk (base_uris st))"
    using cons by (simp_all add: consistent_def)
  from user have f: "List.find (\<lambda>u. username u = n) (users st) = Some user"
    by (simp add: private_get_user_obj_def)
  have G: "?G user \<longleftrightarrow> base_uri_id ds \<in> base_uri_pk ` set (search_base_uris user)"
    by (auto simp: list_ex_iff intro: rev_image_eqI)
  have us: "filter (\<lambda>u. username u = n \<and> ?G u) (users st) = (if ?G user then [user] else [])"
  proof -
    have "filter (\<lambda>u. username u = n \<and> ?G u) (users st) =
          filter ?G (filter (\<lambda>u. username u = n) (users st))"
      by (simp add: conj_commute)
    then show ?thesis by (simp add: find_username_unique [OF du f])
  qed
  have bs: "length (filter (\<lambda>b. base_uri_pk b = base_uri_id ds) (base_uris st)) = 1" if "?G user"
  proof -
    from that obtain g where g: "g \<in> set (search_base_uris user)" "base_uri_pk g = base_uri_id ds"
      by (auto simp: list_ex_iff)
    from find_Some_in [OF f] have "user \<in> set (users st)" by simp
    from granted_in_table [OF cons this g(1)] have "g \<in> set (base_uris st)" .
    from filter_unique_key [OF db this] g(2) show ?thesis by simp
  qed
  have split: "(\<lambda>(b, u). uuid ds = x \<and> username u = n \<and> base_uri_pk b = base_uri_id ds \<and> ?G u) =
        (\<lambda>(b, u). (uuid ds = x \<and> base_uri_pk b = base_uri_id ds) \<and> (username u = n \<and> ?G u))"
    by (auto simp: fun_eq_iff)
  show ?thesis
    unfolding split length_filter_product us
    using bs G by (auto simp: filter_empty_conv)
qed

text \<open>
  C3. In a consistent state, for a user that exists, \<open>lookup_datasets_by_user_and_uuid\<close>
  returns the admin records whose uuid is the given one and whose base URI is one of the
  user's \<open>search_base_uris\<close>, each once and no other; when no record with the uuid
  lies under a base URI of the scope, the result is the empty list.
\<close>

theorem lookup_datasets_by_user_and_uuid_scope:
  assumes cons: "consistent st" and user: "private_get_user_obj st n = Some user"
  shows "lookup_datasets_by_user_and_uuid st n x =
           Inr (filter (\<lambda>ds. uuid ds = x \<and>
                             base_uri_id ds \<in> base_uri_pk ` set (search_base_uris user))
                  (datasets st)) \<and>
         ((\<forall>ds \<in> set (datasets st). uuid ds = x \<longrightarrow>
              base_uri_id ds \<notin> base_uri_pk ` set (search_base_uris user)) \<longrightarrow>
          lookup_datasets_by_user_and_uuid st n x = Inr [])"
proof -
  let ?c = "\<lambda>ds. uuid ds = x \<and> base_uri_id ds \<in> base_uri_pk ` set (search_base_uris user)"
  let ?F = "\<lambda>(ds, b, u). uuid ds = x \<and> username u = n \<and> base_uri_pk b = base_uri_id ds \<and>
                        list_ex (\<lambda>g. base_uri_pk g = base_uri_id ds) (search_base_uris u)"
  have proj: "(\<lambda>(ds, b, u). as_dict ds) = fst"
    by (auto simp: fun_eq_iff as_dict_def)
  have inner: "(\<lambda>y. ?F (ds, y)) =
       (\<lambda>(b, u). uuid ds = x \<and> username u = n \<and> base_uri_pk b = base_uri_id ds \<and>
                  list_ex (\<lambda>g. base_uri_pk g = base_uri_id ds) (search_base_uris u))"
    for ds :: Dataset
    by (auto simp: fun_eq_iff)
  have "map fst (filter ?F (List.product (datasets st) (List.product (base_uris st) (users st)))) =
        concat (map (\<lambda>ds. replicate (if ?c ds then 1 else 0) ds) (datasets st))"
    unfolding filter_product_row inner join_count [OF cons user] ..
  also have "\<dots> = filter ?c (datasets st)"
    by (rule concat_replicate_filter)
  finally have eq: "lookup_datasets_by_user_and_uuid st n x = Inr (filter ?c (datasets st))"
    using user by (simp add: lookup_datasets_by_user_and_uuid_def get_user_obj_def ebind_def proj)
  moreover have "filter ?c (datasets st) = []"
    if "\<forall>ds \<in> set (datasets st). uuid ds = x \<longrightarrow>
              base_uri_id ds \<notin> base_uri_pk ` set (search_base_uris user)"
    using that by (auto simp: filter_empty_conv)
  ultimately show ?thesis by simp
qed

lemma full_state_consistent: "consistent full_state"
  by (simp add: consistent_def full_state_eq demo_state_def alice_def bob_def bucket_def
      vault_def doc_key_def demo_doc_def vault_doc_def demo_payload_def vault_payload_def
      demo_uuid_def other_uuid_def)

theorem lookup_datasets_by_user_and_uuid_scope_witness:
  "consistent full_state \<and> private_get_user_obj full_state ''alice'' = Some alice \<and>
   map base_uri (search_base_uris alice) = [''s3://bucket''] \<and>
   map (\<lambda>ds. (uuid ds, base_uri_id ds)) (datasets full_state) =
     [(demo_uuid, base_uri_pk bucket), (other_uuid, base_uri_pk vault)] \<and>
   lookup_datasets_by_user_and_uuid full_state ''alice'' other_uuid = Inr [] \<and>
   lookup_datasets_by_user_and_uuid full_state ''alice'' demo_uuid =
     Inr [\<lparr>uri = ''s3://bucket/abc'', base_uri_id = 1, uuid = demo_uuid, name = ''n''\<rparr>]"
proof -
  note t1 = lookup_datasets_by_user_and_uuid_scope [OF full_state_consistent alice_found,
      of other_uuid, THEN conjunct1]
  note t2 = lookup_datasets_by_user_and_uuid_scope [OF full_state_consistent alice_found,
      of demo_uuid, THEN conjunct1]
  have d: "datasets full_state =
      [\<lparr>uri = ''s3://bucket/abc'', base_uri_id = 1, uuid = demo_uuid, name = ''n''\<rparr>,
       \<lparr>uri = ''s3://vault/xyz'', base_uri_id = 2, uuid = other_uuid, name = ''n''\<rparr>]"
    by (simp add: full_state_eq)
  have s: "search_base_uris alice = [bucket]" by (simp add: alice_def)
  have ne: "demo_uuid \<noteq> other_uuid" by (simp add: demo_uuid_def other_uuid_def)
  have r1: "lookup_datasets_by_user_and_uuid full_state ''alice'' other_uuid = Inr []"
    unfolding t1 d s using ne by (simp add: bucket_def)
  have r2: "lookup_datasets_by_user_and_uuid full_state ''alice'' demo_uuid =
     Inr [\<lparr>uri = ''s3://bucket/abc'', base_uri_id = 1, uuid = demo_uuid, name = ''n''\<rparr>]"
    unfolding t2 d s using ne by (simp add: bucket_def)
  show ?thesis
    using full_state_consistent alice_found r1 r2
    by (simp add: d s bucket_def vault_def)
qed

section \<open>Updating permissions\<close>

lemma set_relate [simp]: "set (relate bs b) = insert b (set bs)"
  by (auto simp: relate_def)

lemma user_exists_iff: "user_exists st n \<longleftrightarrow> n \<in> username ` set (users st)"
  by (simp add: user_exists_def private_get_user_obj_None)

lemma search_edges_Union:
  "search_edges st = (\<Union>u \<in> set (users st). {username u} \<times> set (search_base_uris u))"
  by (auto simp: search_edges_def)

lemma register_edges_Union:
  "register_edges st = (\<Union>u \<in> set (users st). {username u} \<times> set (register_base_uris u))"
  by (auto simp: register_edges_def)

lemma update_first_edges:
  assumes "n \<in> username ` set us"
    and "\<And>u. username (f u) = username u"
    and "\<And>u. E (f u) = insert b (E u)"
  shows "(\<Union>u \<in> set (update_first (\<lambda>u. username u = n) f us). {username u} \<times> E u) =
         insert (n, b) (\<Union>u \<in> set us. {username u} \<times> E u)"
  using assms(1)
proof (induction us)
  case Nil
  then show ?case by simp
next
  case (Cons u us)
  show ?case
  proof (cases "username u = n")
    case True
    then show ?thesis by (auto simp: assms(2,3))
  next
    case False
    with Cons.prems have "n \<in> username ` set us" by auto
    from Cons.IH [OF this] False show ?thesis by auto
  qed
qed

lemma update_first_other:
  assumes "\<And>u. username (f u) = username u" and "\<And>u. E (f u) = E u"
  shows "(\<Union>u \<in> set (update_first P f us). {username u} \<times> E u) =
         (\<Union>u \<in> set us. {username u} \<times> E u)"
  by (induction us) (auto simp: assms)

lemma append_search_effect:
  assumes "n \<in> username ` set (users st)"
  shows "search_edges (append_search st n b) = insert (n, b) (search_edges st)"
    and "register_edges (append_search st n b) = register_edges st"
    and "map username (users (append_search st n b)) = map username (users st)"
    and "base_uris (append_search st n b) = base_uris st"
    and "datasets (append_search st n b) = datasets st"
    and "collection (append_search st n b) = collection st"
proof -
  show "search_edges (append_search st n b) = insert (n, b) (search_edges st)"
    unfolding search_edges_Union append_search_def
    using update_first_edges [OF assms, of "\<lambda>u. u\<lparr>search_base_uris := relate (search_base_uris u) b\<rparr>"
        "\<lambda>u. set (search_base_uris u)" b]
    by simp
  show "register_edges (append_search st n b) = register_edges st"
    unfolding register_edges_Union append_search_def
    using update_first_other [of "\<lambda>u. u\<lparr>search_base_uris := relate (search_base_uris u) b\<rparr>"
        "\<lambda>u. set (register_base_uris u)" "\<lambda>u. username u = n" "users st"]
    by simp
  show "map username (users (append_search st n b)) = map username (users st)"
    by (simp add: append_search_def update_first_keys)
qed (simp_all add: append_search_def)

lemma append_register_effect:
  assumes "n \<in> username ` set (users st)"
  shows "register_edges (append_register st n b) = insert (n, b) (register_edges st)"
    and "search_edges (append_register st n b) = search_edges st"
    and "map username (users (append_register st n b)) = map username (users st)"
    and "base_uris (append_register st n b) = base_uris st"
    and "datasets (append_register st n b) = datasets st"
    and "collection (append_register st n b) = collection st"
proof -
  show "register_edges (append_register st n b) = insert (n, b) (register_edges st)"
    unfolding register_edges_Union append_register_def
    using update_first_edges [OF assms, of "\<lambda>u. u\<lparr>register_base_uris := relate (register_base_uris u) b\<rparr>"
        "\<lambda>u. set (register_base_uris u)" b]
    by simp
  show "search_edges (append_register st n b) = search_edges st"
    unfolding search_edges_Union append_register_def
    using update_first_other [of "\<lambda>u. u\<lparr>register_base_uris := relate (register_base_uris u) b\<rparr>"
        "\<lambda>u. set (search_base_uris u)" "\<lambda>u. username u = n" "users st"]
    by simp
  show "map username (users (append_register st n b)) = map username (users st)"
    by (simp add: append_register_def update_first_keys)
qed (simp_all add: append_register_def)

lemma names_set: "map username us = map username us' \<Longrightarrow> username ` set us = username ` set us'"
  by (metis list.set_map)

lemma grant_search_loop_effect:
  "search_edges (grant_search_loop st b ns) =
     search_edges st \<union> {(n, b) | n. n \<in> set ns \<and> n \<in> username ` set (users st)} \<and>
   register_edges (grant_search_loop st b ns) = register_edges st \<and>
   map username (users (grant_search_loop st b ns)) = map username (users st) \<and>
   base_uris (grant_search_loop st b ns) = base_uris st \<and>
   datasets (grant_search_loop st b ns) = datasets st \<and>
   collection (grant_search_loop st b ns) = collection st"
proof (induction ns arbitrary: st)
  case Nil
  then show ?case by simp
next
  case (Cons n ns)
  show ?case
  proof (cases "n \<in> username ` set (users st)")
    case True
    note e = append_search_effect [OF True, of b]
    have names: "username ` set (users (append_search st n b)) = username ` set (users st)"
      using e(3) by (rule names_set)
    show ?thesis
      using Cons.IH [of "append_search st n b"] True
      by (simp add: user_exists_iff e names) blast
  next
    case False
    then show ?thesis
      using Cons.IH [of st] by (simp add: user_exists_iff) blast
  qed
qed

lemma grant_register_loop_effect:
  "register_edges (grant_register_loop st b ns) =
     register_edges st \<union> {(n, b) | n. n \<in> set ns \<and> n \<in> username ` set (users st)} \<and>
   search_edges (grant_register_loop st b ns) = search_edges st \<and>
   map username (users (grant_register_loop st b ns)) = map username (users st) \<and>
   base_uris (grant_register_loop st b ns) = base_uris st \<and>
   datasets (grant_register_loop st b ns) = datasets st \<and>
   collection (grant_register_loop st b ns) = collection st"
proof (induction ns arbitrary: st)
  case Nil
  then show ?case by simp
next
  case (Cons n ns)
  show ?case
  proof (cases "n \<in> username ` set (users st)")
    case True
    note e = append_register_effect [OF True, of b]
    have names: "username ` set (users (append_register st n b)) = username ` set (users st)"
      using e(3) by (rule names_set)
    show ?thesis
      using Cons.IH [of "append_register st n b"] True
      by (simp add: user_exists_iff e names) blast
  next
    case False
    then show ?thesis
      using Cons.IH [of st] by (simp add: user_exists_iff) blast
  qed
qed

lemma update_permissions_unregistered:
  "\<not> registered st (perm_base_uri p) \<Longrightarrow> update_permissions st p = (Inl ValidationError, st)"
  using private_get_base_uri_obj_None [of st "perm_base_uri p"]
  by (simp add: update_permissions_def get_base_uri_obj_def)

lemma update_permissions_effect:
  assumes "private_get_base_uri_obj st (perm_base_uri p) = Some b"
  shows "\<exists>st'. update_permissions st p = (Inr (), st') \<and>
     search_edges st' = search_edges st \<union> search_grants st p b \<and>
     register_edges st' = register_edges st \<union> register_grants st p b \<and>
     map username (users st') = map username (users st) \<and>
     base_uris st' = base_uris st \<and> datasets st' = datasets st \<and>
     collection st' = collection st"
proof -
  let ?st1 = "grant_search_loop st b (users_with_search_permissions p)"
  let ?st2 = "grant_register_loop ?st1 b (users_with_register_permissions p)"
  note s = grant_search_loop_effect [of st b "users_with_search_permissions p"]
  note r = grant_register_loop_effect [of ?st1 b "users_with_register_permissions p"]
  have names: "username ` set (users ?st1) = username ` set (users st)"
    using s by (intro names_set) simp
  have "update_permissions st p = (Inr (), ?st2)"
    using assms by (simp add: update_permissions_def get_base_uri_obj_def Let_def)
  moreover have "search_edges ?st2 = search_edges st \<union> search_grants st p b"
    using s r by (simp add: search_grants_def)
  moreover have "register_edges ?st2 = register_edges st \<union> register_grants st p b"
    using s r by (simp add: register_grants_def names)
  ultimately show ?thesis using s r by simp
qed

text \<open>
  C5, as amended. When the base URI of the spec is registered, \<open>update_permissions\<close>
  succeeds and the search and register edges afterwards are those before together with
  one edge to that base URI for each listed username that exists; a listed username that
  does not exist adds nothing and raises nothing. Two calls in a row give the union of
  the edges before and of what either spec grants. When the base URI is not registered
  the call raises ValidationError and changes nothing. In every case an edge that was
  there before the call is there after it.
\<close>

theorem update_permissions_additive:
  "(\<forall>b. private_get_base_uri_obj st (perm_base_uri p) = Some b \<longrightarrow>
      (\<exists>st'. update_permissions st p = (Inr (), st') \<and>
         search_edges st' = search_edges st \<union> search_grants st p b \<and>
         register_edges st' = register_edges st \<union> register_grants st p b)) \<and>
   (\<forall>b b' r1 st1 r2 st2.
      private_get_base_uri_obj st (perm_base_uri p) = Some b \<and>
      private_get_base_uri_obj st (perm_base_uri p') = Some b' \<and>
      update_permissions st p = (r1, st1) \<and> update_permissions st1 p' = (r2, st2) \<longrightarrow>
        search_edges st2 = search_edges st \<union> search_grants st p b \<union> search_grants st p' b' \<and>
        register_edges st2 =
          register_edges st \<union> register_grants st p b \<union> register_grants st p' b') \<and>
   (\<not> registered st (perm_base_uri p) \<longrightarrow>
      update_permissions st p = (Inl ValidationError, st)) \<and>
   (\<forall>r st'. update_permissions st p = (r, st') \<longrightarrow>
      search_edges st \<subseteq> search_edges st' \<and> register_edges st \<subseteq> register_edges st')"
proof (intro conjI allI impI)
  fix b assume "private_get_base_uri_obj st (perm_base_uri p) = Some b"
  from update_permissions_effect [OF this]
  show "\<exists>st'. update_permissions st p = (Inr (), st') \<and>
         search_edges st' = search_edges st \<union> search_grants st p b \<and>
         register_edges st' = register_edges st \<union> register_grants st p b"
    by blast
next
  fix b b' r1 st1 r2 st2
  assume a: "private_get_base_uri_obj st (perm_base_uri p) = Some b \<and>
      private_get_base_uri_obj st (perm_base_uri p') = Some b' \<and>
      update_permissions st p = (r1, st1) \<and> update_permissions st1 p' = (r2, st2)"
  from a update_permissions_effect [of st p b]
  have 1: "search_edges st1 = search_edges st \<union> search_grants st p b"
    "register_edges st1 = register_edges st \<union> register_grants st p b"
    "map username (users st1) = map username (users st)" "base_uris st1 = base_uris st"
    by auto
  have names: "username ` set (users st1) = username ` set (users st)"
    using 1(3) by (rule names_set)
  from a 1(4) have "private_get_base_uri_obj st1 (perm_base_uri p') = Some b'"
    by (simp add: private_get_base_uri_obj_def)
  from update_permissions_effect [OF this] a
  have 2: "search_edges st2 = search_edges st1 \<union> search_grants st1 p' b'"
    "register_edges st2 = register_edges st1 \<union> register_grants st1 p' b'"
    by auto
  have g: "search_grants st1 p' b' = search_grants st p' b'"
    "register_grants st1 p' b' = register_grants st p' b'"
    by (simp_all add: search_grants_def register_grants_def names)
  show "search_edges st2 = search_edges st \<union> search_grants st p b \<union> search_grants st p' b'"
    by (simp add: 1 2 g)
  show "register_edges st2 =
          register_edges st \<union> register_grants st p b \<union> register_grants st p' b'"
    by (simp add: 1 2 g)
next
  assume "\<not> registered st (perm_base_uri p)"
  then show "update_permissions st p = (Inl ValidationError, st)"
    by (rule update_permissions_unregistered)
next
  fix r st' assume run: "update_permissions st p = (r, st')"
  have "search_edges st \<subseteq> search_edges st' \<and> register_edges st \<subseteq> register_edges st'"
  proof (cases "private_get_base_uri_obj st (perm_base_uri p)")
    case None
    then have "\<not> registered st (perm_base_uri p)"
      by (simp add: private_get_base_uri_obj_None)
    from update_permissions_unregistered [OF this] run show ?thesis by simp
  next
    case (Some b)
    from update_permissions_effect [OF this] run show ?thesis by auto
  qed
  then show "search_edges st \<subseteq> search_edges st'" and "register_edges st \<subseteq> register_edges st'"
    by simp_all
qed

lemma vault_found: "private_get_base_uri_obj demo_state ''s3://vault'' = Some vault"
  by (simp add: private_get_base_uri_obj_def demo_state_def bucket_def vault_def)

lemma demo_edges:
  "search_edges demo_state = {(''alice'', bucket)}" "register_edges demo_state = {}"
  by (simp_all add: search_edges_Union register_edges_Union demo_state_def alice_def bob_def)

lemma grants_image:
  "search_grants st p b =
     (\<lambda>n. (n, b)) ` (set (users_with_search_permissions p) \<inter> username ` set (users st))"
  "register_grants st p b =
     (\<lambda>n. (n, b)) ` (set (users_with_register_permissions p) \<inter> username ` set (users st))"
  by (auto simp: search_grants_def register_grants_def)

lemma demo_grants:
  "search_grants demo_state vault_perms vault = {(''alice'', vault)}"
  "register_grants demo_state vault_perms vault = {(''bob'', vault)}"
  "search_grants demo_state vault_perms_again vault = {(''alice'', vault), (''bob'', vault)}"
  "register_grants demo_state vault_perms_again vault = {}"
  by (simp_all add: grants_image vault_perms_def vault_perms_again_def
      demo_state_def alice_def bob_def)

theorem update_permissions_additive_witness:
  "private_get_base_uri_obj demo_state (perm_base_uri vault_perms) = Some vault \<and>
   private_get_base_uri_obj demo_state (perm_base_uri vault_perms_again) = Some vault \<and>
   \<not> registered demo_state (perm_base_uri nowhere_perms) \<and>
   search_edges demo_state = {(''alice'', bucket)} \<and>
   fst (update_permissions demo_state vault_perms) = Inr () \<and>
   search_edges (snd (update_permissions demo_state vault_perms)) =
     {(''alice'', bucket), (''alice'', vault)} \<and>
   register_edges (snd (update_permissions demo_state vault_perms)) = {(''bob'', vault)} \<and>
   search_edges (snd (update_permissions (snd (update_permissions demo_state vault_perms))
                        vault_perms_again)) =
     {(''alice'', bucket), (''alice'', vault), (''bob'', vault)} \<and>
   register_edges (snd (update_permissions (snd (update_permissions demo_state vault_perms))
                        vault_perms_again)) = {(''bob'', vault)} \<and>
   update_permissions demo_state nowhere_perms = (Inl ValidationError, demo_state)"
proof -
  have v1: "private_get_base_uri_obj demo_state (perm_base_uri vault_perms) = Some vault"
    by (simp add: vault_perms_def vault_found)
  have v2: "private_get_base_uri_obj demo_state (perm_base_uri vault_perms_again) = Some vault"
    by (simp add: vault_perms_again_def vault_found)
  have n: "\<not> registered demo_state (perm_base_uri nowhere_perms)"
    by (simp add: registered_def demo_state_def nowhere_perms_def bucket_def vault_def)
  let ?st1 = "snd (update_permissions demo_state vault_perms)"
  let ?st2 = "snd (update_permissions ?st1 vault_perms_again)"
  note t = update_permissions_additive [of demo_state vault_perms vault_perms_again]
  note t1 = t [THEN conjunct1, rule_format, OF v1]
  note t2 = t [THEN conjunct2, THEN conjunct1, rule_format, of vault vault
      "fst (update_permissions demo_state vault_perms)" ?st1
      "fst (update_permissions ?st1 vault_perms_again)" ?st2]
  from t1 obtain st' where st': "update_permissions demo_state vault_perms = (Inr (), st')"
    "search_edges st' = search_edges demo_state \<union> search_grants demo_state vault_perms vault"
    "register_edges st' = register_edges demo_state \<union> register_grants demo_state vault_perms vault"
    by blast
  from st' have one: "fst (update_permissions demo_state vault_perms) = Inr ()"
    "search_edges ?st1 = search_edges demo_state \<union> search_grants demo_state vault_perms vault"
    "register_edges ?st1 = register_edges demo_state \<union> register_grants demo_state vault_perms vault"
    by simp_all
  from t2 v1 v2 have two:
    "search_edges ?st2 = search_edges demo_state \<union> search_grants demo_state vault_perms vault
        \<union> search_grants demo_state vault_perms_again vault"
    "register_edges ?st2 = register_edges demo_state \<union> register_grants demo_state vault_perms vault
        \<union> register_grants demo_state vault_perms_again vault"
    by simp_all
  note t3 = update_permissions_additive [of demo_state nowhere_perms nowhere_perms,
      THEN conjunct2, THEN conjunct2, THEN conjunct1, rule_format, OF n]
  have e1: "search_edges ?st1 = {(''alice'', bucket), (''alice'', vault)}"
    unfolding one(2) demo_edges demo_grants by auto
  have e2: "register_edges ?st1 = {(''bob'', vault)}"
    unfolding one(3) demo_edges demo_grants by simp
  have e3: "search_edges ?st2 = {(''alice'', bucket), (''alice'', vault), (''bob'', vault)}"
    unfolding two(1) demo_edges demo_grants by auto
  have e4: "register_edges ?st2 = {(''bob'', vault)}"
    unfolding two(2) demo_edges demo_grants by simp
  show ?thesis
    using v1 v2 n t3 one(1) e1 e2 e3 e4 demo_edges(1) by simp
qed

text \<open>
  The claim as stated fails for a spec whose base URI is not registered: \<open>alice\<close> exists
  and is listed, the call raises, and she has no edge but the one she had.
\<close>

theorem update_permissions_additive_counterexample:
  "''alice'' \<in> set (users_with_search_permissions nowhere_perms) \<and>
   user_exists demo_state ''alice'' \<and>
   update_permissions demo_state nowhere_perms = (Inl ValidationError, demo_state) \<and>
   search_edges demo_state = {(''alice'', bucket)}"
  by (simp add: nowhere_perms_def user_exists_def private_get_user_obj_def
      update_permissions_def get_base_uri_obj_def private_get_base_uri_obj_def demo_edges)
    (simp add: demo_state_def alice_def bucket_def vault_def)

lemma grant_search_loop_strangers:
  "\<forall>n \<in> set ns. n \<notin> username ` set (users st) \<Longrightarrow> grant_search_loop st b ns = st"
  by (induction ns) (simp_all add: user_exists_iff)

lemma grant_register_loop_strangers:
  "\<forall>n \<in> set ns. n \<notin> username ` set (users st) \<Longrightarrow> grant_register_loop st b ns = st"
  by (induction ns) (simp_all add: user_exists_iff)

lemma edges_names:
  "(n, g) \<in> search_edges st \<Longrightarrow> n \<in> username ` set (users st)"
  "(n, g) \<in> register_edges st \<Longrightarrow> n \<in> username ` set (users st)"
  by (auto simp: search_edges_def register_edges_def)

text \<open>
  C8, as amended. A permission update that names a base URI which is not registered
  raises the ValidationError of \<open>get_base_uri_obj\<close> and changes nothing. With a
  registered base URI the update succeeds, a username that does not exist has no edge
  afterwards, and when none of the listed usernames exists the state is unchanged.
\<close>

theorem update_permissions_missing_target:
  "(\<not> registered st (perm_base_uri p) \<longrightarrow>
      get_base_uri_obj st (perm_base_uri p) = Inl ValidationError \<and>
      update_permissions st p = (Inl ValidationError, st)) \<and>
   (registered st (perm_base_uri p) \<longrightarrow>
      (\<exists>st'. update_permissions st p = (Inr (), st') \<and>
         (\<forall>n g. n \<notin> username ` set (users st) \<longrightarrow>
            (n, g) \<notin> search_edges st' \<and> (n, g) \<notin> register_edges st'))) \<and>
   (registered st (perm_base_uri p) \<and>
    (\<forall>n \<in> set (users_with_search_permissions p) \<union> set (users_with_register_permissions p).
        \<not> user_exists st n) \<longrightarrow>
      update_permissions st p = (Inr (), st))"
proof (intro conjI allI impI)
  assume n: "\<not> registered st (perm_base_uri p)"
  then show "get_base_uri_obj st (perm_base_uri p) = Inl ValidationError"
    using private_get_base_uri_obj_None [of st "perm_base_uri p"]
    by (simp add: get_base_uri_obj_def)
  from n show "update_permissions st p = (Inl ValidationError, st)"
    by (rule update_permissions_unregistered)
next
  assume "registered st (perm_base_uri p)"
  then obtain b where "private_get_base_uri_obj st (perm_base_uri p) = Some b"
    using get_base_uri_obj_registered by blast
  from update_permissions_effect [OF this] obtain st' where
    st': "update_permissions st p = (Inr (), st')"
    "map username (users st') = map username (users st)"
    by blast
  have names: "username ` set (users st') = username ` set (users st)"
    using st'(2) by (rule names_set)
  have no: "(n, g) \<notin> search_edges st' \<and> (n, g) \<notin> register_edges st'"
    if "n \<notin> username ` set (users st)" for n g
    using that edges_names(1) [of n g st'] edges_names(2) [of n g st'] names by auto
  show "\<exists>st'. update_permissions st p = (Inr (), st') \<and>
         (\<forall>n g. n \<notin> username ` set (users st) \<longrightarrow>
            (n, g) \<notin> search_edges st' \<and> (n, g) \<notin> register_edges st')"
    using st'(1) no by (intro exI [of _ st']) simp
next
  assume a: "registered st (perm_base_uri p) \<and>
    (\<forall>n \<in> set (users_with_search_permissions p) \<union> set (users_with_register_permissions p).
        \<not> user_exists st n)"
  then obtain b where b: "get_base_uri_obj st (perm_base_uri p) = Inr b"
    using get_base_uri_obj_registered by blast
  from a have "\<forall>n \<in> set (users_with_search_permissions p). n \<notin> username ` set (users st)"
    by (simp add: user_exists_iff)
  then have s: "grant_search_loop st b (users_with_search_permissions p) = st"
    by (rule grant_search_loop_strangers)
  from a have "\<forall>n \<in> set (users_with_register_permissions p). n \<notin> username ` set (users st)"
    by (simp add: user_exists_iff)
  then have r: "grant_register_loop st b (users_with_register_permissions p) = st"
    by (rule grant_register_loop_strangers)
  show "update_permissions st p = (Inr (), st)"
    by (simp add: update_permissions_def b s r)
qed

theorem update_permissions_missing_target_witness:
  "\<not> registered demo_state (perm_base_uri ghost_perms) \<and>
   update_permissions demo_state ghost_perms = (Inl ValidationError, demo_state) \<and>
   registered demo_state (perm_base_uri strangers_perms) \<and>
   \<not> user_exists demo_state ''carol'' \<and> \<not> user_exists demo_state ''dave'' \<and>
   update_permissions demo_state strangers_perms = (Inr (), demo_state)"
proof -
  have n: "\<not> registered demo_state (perm_base_uri ghost_perms)"
    by (simp add: registered_def demo_state_def ghost_perms_def bucket_def vault_def)
  have r: "registered demo_state (perm_base_uri strangers_perms)"
    by (simp add: registered_def demo_state_def strangers_perms_def bucket_def vault_def)
  have c: "\<not> user_exists demo_state ''carol''" "\<not> user_exists demo_state ''dave''"
    by (simp_all add: user_exists_iff demo_state_def alice_def bob_def)
  have l: "\<forall>n \<in> set (users_with_search_permissions strangers_perms) \<union>
               set (users_with_register_permissions strangers_perms). \<not> user_exists demo_state n"
    using c by (simp add: strangers_perms_def)
  show ?thesis
    using update_permissions_missing_target [of demo_state ghost_perms]
      update_permissions_missing_target [of demo_state strangers_perms] n r c l
    by blast
qed

text \<open>
  The claim as stated fails where the base URI does not exist: the update is an error,
  not a silent no-op.
\<close>

theorem update_permissions_missing_target_counterexample:
  "get_base_uri_obj demo_state ''s3://nowhere'' = Inl ValidationError \<and>
   fst (update_permissions demo_state ghost_perms) = Inl ValidationError"
  by (simp add: ghost_perms_def update_permissions_def get_base_uri_obj_def
      private_get_base_uri_obj_def demo_state_def bucket_def vault_def)

section \<open>Every operation keeps the state consistent\<close>

text \<open>
  The hypothesis \<open>consistent\<close> of the theorems above holds in the empty state and is
  kept by the functions of \<open>utils.py\<close> that write to a store.
\<close>

lemma empty_state_consistent: "consistent empty_state"
  by (simp add: consistent_def empty_state_def)

lemma fold_max_ge: "(a::nat) \<le> fold max xs a \<and> (\<forall>x \<in> set xs. x \<le> fold max xs a)"
proof (induction xs arbitrary: a)
  case Nil
  then show ?case by simp
next
  case (Cons y ys)
  from Cons [of "max y a"] show ?case by auto
qed

lemma next_pk_fresh: "next_pk bs \<notin> base_uri_pk ` set bs"
proof
  assume "next_pk bs \<in> base_uri_pk ` set bs"
  then have "next_pk bs \<in> set (map base_uri_pk bs)" by simp
  with fold_max_ge [of 0 "map base_uri_pk bs"] have "next_pk bs \<le> fold max (map base_uri_pk bs) 0"
    by blast
  then show False by (simp add: next_pk_def)
qed

lemma register_base_uri_consistent:
  assumes "consistent st"
  shows "consistent (snd (register_base_uri st b))"
proof (cases "list_ex (\<lambda>x. base_uri x = b) (base_uris st)")
  case True
  with assms show ?thesis by (simp add: register_base_uri_def sql_add_base_uri_def)
next
  case False
  with assms next_pk_fresh [of "base_uris st"] show ?thesis
    by (auto simp: register_base_uri_def sql_add_base_uri_def consistent_def list_all_iff)
qed

lemma register_users_consistent:
  "consistent st \<Longrightarrow> consistent (register_users st entries)"
proof (induction entries arbitrary: st)
  case Nil
  then show ?case by simp
next
  case (Cons e entries)
  obtain n adm where e: "e = (n, adm)" by (cases e)
  show ?case
  proof (cases "list_ex (\<lambda>u. username u = n) (users st)")
    case True
    with Cons show ?thesis by (simp add: e)
  next
    case False
    let ?st = "st\<lparr>users := users st @
                     [\<lparr>username = n, is_admin = (case adm of None \<Rightarrow> False | Some b \<Rightarrow> b),
                       search_base_uris = [], register_base_uris = []\<rparr>]\<rparr>"
    from False Cons.prems have "consistent ?st"
      by (auto simp: consistent_def list_ex_iff)
    from Cons.IH [OF this] False show ?thesis by (simp add: e Let_def)
  qed
qed

lemma update_first_all:
  "list_all Q xs \<Longrightarrow> (\<And>x. Q x \<Longrightarrow> Q (f x)) \<Longrightarrow> list_all Q (update_first P f xs)"
  by (induction xs) auto

lemma append_search_consistent:
  assumes "consistent st" and "b \<in> set (base_uris st)"
  shows "consistent (append_search st n b)"
proof -
  let ?Q = "\<lambda>u. list_all (\<lambda>g. g \<in> set (base_uris st)) (search_base_uris u) \<and>
                 list_all (\<lambda>g. g \<in> set (base_uris st)) (register_base_uris u)"
  let ?f = "\<lambda>u. u\<lparr>search_base_uris := relate (search_base_uris u) b\<rparr>"
  from assms have "list_all ?Q (users st)" by (simp add: consistent_def)
  then have "list_all ?Q (update_first (\<lambda>u. username u = n) ?f (users st))"
    by (rule update_first_all) (simp add: assms(2) list_all_iff)
  moreover have "map username (update_first (\<lambda>u. username u = n) ?f (users st)) =
      map username (users st)"
    by (rule update_first_keys) simp
  ultimately show ?thesis
    using assms(1) by (simp add: consistent_def append_search_def)
qed

lemma append_register_consistent:
  assumes "consistent st" and "b \<in> set (base_uris st)"
  shows "consistent (append_register st n b)"
proof -
  let ?Q = "\<lambda>u. list_all (\<lambda>g. g \<in> set (base_uris st)) (search_base_uris u) \<and>
                 list_all (\<lambda>g. g \<in> set (base_uris st)) (register_base_uris u)"
  let ?f = "\<lambda>u. u\<lparr>register_base_uris := relate (register_base_uris u) b\<rparr>"
  from assms have "list_all ?Q (users st)" by (simp add: consistent_def)
  then have "list_all ?Q (update_first (\<lambda>u. username u = n) ?f (users st))"
    by (rule update_first_all) (simp add: assms(2) list_all_iff)
  moreover have "map username (update_first (\<lambda>u. username u = n) ?f (users st)) =
      map username (users st)"
    by (rule update_first_keys) simp
  ultimately show ?thesis
    using assms(1) by (simp add: consistent_def append_register_def)
qed

lemma grant_search_loop_consistent:
  "consistent st \<Longrightarrow> b \<in> set (base_uris st) \<Longrightarrow> consistent (grant_search_loop st b ns)"
proof (induction ns arbitrary: st)
  case Nil
  then show ?case by simp
next
  case (Cons n ns)
  have "consistent (append_search st n b)" "b \<in> set (base_uris (append_search st n b))"
    using Cons.prems by (simp_all add: append_search_consistent) (simp add: append_search_def)
  with Cons show ?case by simp
qed

lemma grant_register_loop_consistent:
  "consistent st \<Longrightarrow> b \<in> set (base_uris st) \<Longrightarrow> consistent (grant_register_loop st b ns)"
proof (induction ns arbitrary: st)
  case Nil
  then show ?case by simp
next
  case (Cons n ns)
  have "consistent (append_register st n b)" "b \<in> set (base_uris (append_register st n b))"
    using Cons.prems by (simp_all add: append_register_consistent) (simp add: append_register_def)
  with Cons show ?case by simp
qed

lemma update_permissions_consistent:
  assumes "consistent st"
  shows "consistent (snd (update_permissions st p))"
proof (cases "private_get_base_uri_obj st (perm_base_uri p)")
  case None
  with assms show ?thesis by (simp add: update_permissions_def get_base_uri_obj_def)
next
  case (Some b)
  then have b: "b \<in> set (base_uris st)"
    by (simp add: private_get_base_uri_obj_def find_Some_in)
  let ?st1 = "grant_search_loop st b (users_with_search_permissions p)"
  have c1: "consistent ?st1" using assms b by (rule grant_search_loop_consistent)
  have "base_uris ?st1 = base_uris st"
    using grant_search_loop_effect [of st b "users_with_search_permissions p"] by simp
  with b have "b \<in> set (base_uris ?st1)" by simp
  with c1 have "consistent (grant_register_loop ?st1 b (users_with_register_permissions p))"
    by (rule grant_register_loop_consistent)
  with Some show ?thesis
    by (simp add: update_permissions_def get_base_uri_obj_def Let_def)
qed

lemma replacement_key: "replacement old d = Inr new \<Longrightarrow> doc_key new = doc_key d"
  by (auto simp: replacement_def doc_key_setitem_id split: option.splits if_splits)

lemma upsert_distinct:
  assumes up: "upsert coll [(''uuid'', u), (''uri'', r)] d = Inr (coll', info1)"
    and dk: "doc_key d = (Some u, Some r)"
    and dist: "distinct (map doc_key coll)"
  shows "distinct (map doc_key coll')"
proof -
  let ?q = "[(''uuid'', u), (''uri'', r)]"
  have mq: "matches ?q = (\<lambda>y. doc_key y = doc_key d)"
    using dk by (auto simp: matches_key fun_eq_iff)
  show ?thesis
  proof (cases "find_one coll ?q")
    case None
    then have no: "\<forall>x \<in> set coll. doc_key x \<noteq> doc_key d"
      by (simp add: find_one_def find_None_iff mq)
    from up None obtain new where "coll' = coll @ [new]" "doc_key new = doc_key d"
      by (auto simp: upsert_def insert_one_def Let_def doc_key_setitem_id
          split: option.splits if_splits)
    with no dist show ?thesis by auto
  next
    case (Some old)
    then have o: "List.find (matches ?q) coll = Some old" by (simp add: find_one_def)
    from up Some o obtain new where new: "replacement old d = Inr new"
      and c: "coll' = update_first (matches ?q) (\<lambda>x. new) coll"
      by (auto simp: upsert_def find_one_and_replace_def split: sum.splits)
    have "map doc_key (update_first (matches ?q) (\<lambda>x. new) coll) = map doc_key coll"
      by (rule update_first_keys) (simp add: mq replacement_key [OF new])
    with c dist show ?thesis by simp
  qed
qed

lemma admin_step_consistent:
  assumes "consistent st" and "register_dataset_admin_metadata st d = (res, st1)"
  shows "consistent st1"
proof -
  from assms(2) consider "st1 = st"
    | row where "st1 = st\<lparr>datasets := datasets st @ [row]\<rparr>"
        and "\<not> list_ex (\<lambda>x. uri x = uri row) (datasets st)"
    by (auto simp: register_dataset_admin_metadata_def sql_add_dataset_def
        split: sum.splits if_splits)
  then show ?thesis
  proof cases
    case 1
    with assms(1) show ?thesis by simp
  next
    case 2
    from 2(2) have "uri row \<notin> uri ` set (datasets st)"
      by (auto simp: list_ex_iff)
    with assms(1) 2(1) show ?thesis by (simp add: consistent_def)
  qed
qed

lemma descriptive_step_consistent:
  assumes cons: "consistent st"
    and run: "register_dataset_descriptive_metadata st d = (res, st2, info')"
  shows "consistent st2"
proof (cases "dataset_info_is_valid d = Inr True")
  case False
  with run have "st2 = st \<or> st2 = st\<lparr>collection := collection st\<rparr>"
    by (cases "dataset_info_is_valid d")
      (auto simp: register_dataset_descriptive_metadata_def
        private_register_dataset_descriptive_metadata_def split: sum.splits if_splits)
  with cons show ?thesis by auto
next
  case True
  from dataset_info_is_valid_True(1) [OF True]
  have "''uuid'' \<in> fst ` set d" "''uri'' \<in> fst ` set d"
    by (simp_all add: DATASET_INFO_REQUIRED_KEYS_def)
  then obtain u r where ur: "map_of d ''uuid'' = Some u" "map_of d ''uri'' = Some r"
    by (meson in_keys_map_of)
  then have dk: "doc_key d = (Some u, Some r)" by (simp add: doc_key_def)
  have dist: "distinct (map doc_key (collection st))" using cons by (simp add: consistent_def)
  from run private_register_upsert [OF True ur, of "collection st"]
  have "st2 = st \<or> st2 = st\<lparr>collection := collection st\<rparr> \<or>
      (\<exists>c info1. upsert (collection st) [(''uuid'', u), (''uri'', r)] d = Inr (c, info1) \<and>
                 st2 = st\<lparr>collection := c\<rparr>)"
    by (auto simp: register_dataset_descriptive_metadata_def split: sum.splits)
  with cons upsert_distinct [OF _ dk dist] show ?thesis
    by (auto simp: consistent_def)
qed

lemma register_dataset_consistent:
  assumes cons: "consistent st"
  shows "consistent (snd (register_dataset st d))"
proof -
  have admin: "consistent st1" if "register_dataset_admin_metadata st d = (res1, st1)"
    for res1 st1
    using cons that by (rule admin_step_consistent)
  have descr: "consistent st2"
    if "consistent st1" "register_dataset_descriptive_metadata st1 d = (res2, st2, info')"
    for st1 res2 st2 info'
    using that by (rule descriptive_step_consistent)
  show ?thesis
    using cons
    by (auto simp: register_dataset_def split: sum.splits if_splits prod.splits
        intro: admin descr)
qed

end
